theory Spec2Isabelle
  imports Main "HOL-Library.Word"
begin

section \<open>Data model of the discovery server (core/explorer/discovery.go)\<close>

type_synonym Token = string

text \<open>Go's \<open>int\<close> on the 64-bit targets: a two's complement 64-bit integer.
  Comparisons are signed (\<open>word_sless\<close>), \<open>++\<close> wraps around.\<close>

type_synonym go_int = "64 word"

text \<open>\<open>time.Duration\<close> is an \<open>int64\<close> count of nanoseconds.\<close>

type_synonym Duration = "64 word"

definition Second :: Duration where
  "Second = 1000000000"

record ClusterData =
  Workers :: "string list"
  Type :: string
  NetworkID :: string

record Network =
  Clusters :: "ClusterData list"

record NetworkState =
  Networks :: "Token \<rightharpoonup> Network"

text \<open>Modelled from the spec: the Token Store (type \<open>Database\<close> of the package, whose
  file is not among the sources). The spec gives it two operations, \<open>ListTokens()\<close>
  returning the sequence of tokens and \<open>Delete(token)\<close>; a token is a unique key, so
  deleting it leaves no occurrence behind.\<close>

record Database =
  tokens :: "Token list"

definition TokenList :: "Database \<Rightarrow> Token list" where
  "TokenList db = tokens db"

definition Delete :: "Token \<Rightarrow> Database \<Rightarrow> Database" where
  "Delete k db = db\<lparr>tokens := removeAll k (tokens db)\<rparr>"

text \<open>The struct \<open>DiscoveryServer\<close>. The mutex is left out: the model is sequential.
  A Go map value is either \<open>nil\<close> or an allocated table; \<open>failures\<close> is the one map
  field that the constructor does not allocate, so its \<open>nil\<close> state is part of the
  model (\<open>None\<close>). \<open>Networks\<close> is allocated by the constructor and never reassigned.\<close>

record DiscoveryServer =
  database :: Database
  networkState :: NetworkState
  connectionTime :: Duration
  failures :: "(Token \<rightharpoonup> go_int) option"
  errorThreshold :: go_int

text \<open>The run-time panic of Go on \<open>m[k] = v\<close> (here \<open>m[k]++\<close>) for a \<open>nil\<close> map.\<close>

datatype panic = AssignmentToEntryInNilMap

subsection \<open>NewDiscoveryServer\<close>

definition NewDiscoveryServer :: "Database \<Rightarrow> Duration \<Rightarrow> go_int \<Rightarrow> DiscoveryServer" where
  "NewDiscoveryServer db dur failureThreshold =
     (let dur' = (if dur = 0 then 50 * Second else dur);
          failureThreshold' = (if failureThreshold = 0 then 3 else failureThreshold)
      in \<lparr> database = db,
           networkState = \<lparr> Networks = Map.empty \<rparr>,
           connectionTime = dur',
           failures = None,
           errorThreshold = failureThreshold' \<rparr>)"

subsection \<open>failedToken\<close>

text \<open>\<open>s.failures[token]++\<close>: reading a missing key (or a \<open>nil\<close> map) gives 0; the
  write panics on a \<open>nil\<close> map.\<close>

definition failureCount :: "DiscoveryServer \<Rightarrow> Token \<Rightarrow> go_int" where
  "failureCount s token =
     (case failures s of None \<Rightarrow> 0
      | Some m \<Rightarrow> (case m token of None \<Rightarrow> 0 | Some v \<Rightarrow> v))"

definition failedToken :: "Token \<Rightarrow> DiscoveryServer \<Rightarrow> panic + DiscoveryServer" where
  "failedToken token s =
     (case failures s of
        None \<Rightarrow> Inl AssignmentToEntryInNilMap
      | Some m \<Rightarrow> Inr (s\<lparr>failures := Some (m(token \<mapsto> failureCount s token + 1))\<rparr>))"

subsection \<open>deleteFailedConnections\<close>

text \<open>The entry recorded for a token in the failure map, if any, and the keys of the map
  (none for a \<open>nil\<close> map).\<close>

definition recorded :: "DiscoveryServer \<Rightarrow> Token \<Rightarrow> go_int option" where
  "recorded s k = (case failures s of None \<Rightarrow> None | Some m \<Rightarrow> m k)"

definition failureKeys :: "DiscoveryServer \<Rightarrow> Token set" where
  "failureKeys s = (case failures s of None \<Rightarrow> {} | Some m \<Rightarrow> dom m)"

text \<open>One iteration of \<open>for k, v := range s.failures\<close>, at key \<open>k\<close>. The loop deletes
  only the entry it is visiting, so the value \<open>v\<close> it is handed is the one in the map.\<close>

definition sweepEntry :: "Token \<Rightarrow> DiscoveryServer \<Rightarrow> DiscoveryServer" where
  "sweepEntry k s =
     (case failures s of
        None \<Rightarrow> s
      | Some m \<Rightarrow>
          (case m k of
             None \<Rightarrow> s
           | Some v \<Rightarrow>
               if word_sless (errorThreshold s) v
               then s\<lparr>database := Delete k (database s), failures := Some (m(k := None))\<rparr>
               else s))"

text \<open>Go does not fix the order in which \<open>range\<close> visits the keys of a map: \<open>ks\<close> is
  the order the run time picks, an enumeration of the keys of \<open>s.failures\<close> (empty for a
  \<open>nil\<close> map).\<close>

definition deleteFailedConnections :: "Token list \<Rightarrow> DiscoveryServer \<Rightarrow> DiscoveryServer" where
  "deleteFailedConnections ks s = fold sweepEntry ks s"

section \<open>The ledger scanner (retrieveNetworkData)\<close>

subsection \<open>The two functions of package strings that the scanner calls\<close>

fun HasPrefix :: "string \<Rightarrow> string \<Rightarrow> bool" where
  "HasPrefix s [] = True"
| "HasPrefix [] (p # ps) = False"
| "HasPrefix (c # cs) (p # ps) = (c = p \<and> HasPrefix cs ps)"

text \<open>\<open>strings.Contains(s, substr)\<close>: \<open>substr\<close> occurs in \<open>s\<close> at some offset.\<close>

fun Contains :: "string \<Rightarrow> string \<Rightarrow> bool" where
  "Contains [] substr = (substr = [])"
| "Contains (c # cs) substr = (HasPrefix (c # cs) substr \<or> Contains cs substr)"

text \<open>\<open>strings.Split(s, sep)\<close> for a separator of one byte (the scanner only splits at
  \<open>"_"\<close>): the fields between the separators, \<open>[""]\<close> for the empty string.\<close>

fun Split :: "string \<Rightarrow> char \<Rightarrow> string list" where
  "Split [] sep = [[]]"
| "Split (c # cs) sep =
     (if c = sep then [] # Split cs sep
      else (case Split cs sep of [] \<Rightarrow> [[c]] | w # ws \<Rightarrow> (c # w) # ws))"

subsection \<open>What package p2p supplies\<close>

text \<open>Modelled from the spec: \<open>p2p.NodeData\<close> (package p2p is not among the sources), a
  presence record decoded from a raw ledger value that exposes an identifier and an
  online/offline flag.\<close>

record NodeData =
  ID :: string
  IsOnline :: bool

text \<open>Modelled from the spec: the two well-known marker constants \<open>p2p.WorkerID\<close> and
  \<open>p2p.FederatedID\<close> and the decoding of a raw ledger value (\<open>v.Unmarshal(nd)\<close>, which
  fails on a malformed value: \<open>None\<close>), taken as parameters. \<open>'v\<close> is the type of
  raw ledger values.\<close>

record 'v p2p =
  WorkerID :: string
  FederatedID :: string
  Unmarshal :: "'v \<Rightarrow> NodeData option"

subsection \<open>The body of the LEDGER loop\<close>

text \<open>Lines 175-194: the classification of a key. \<open>None\<close> is \<open>continue LEDGER\<close>.
  The \<open>switch\<close> takes its first true case.\<close>

definition classify :: "'v p2p \<Rightarrow> string \<Rightarrow> ClusterData option" where
  "classify P d =
     (let cd = \<lparr> Workers = [], Type = [], NetworkID = [] \<rparr>;
          isWorkerCluster = (d = WorkerID P \<or> (Contains d ''_'' \<and> Contains d (WorkerID P)));
          isFederatedCluster =
            (d = FederatedID P \<or> (Contains d ''_'' \<and> Contains d (FederatedID P)));
          (toScanForWorkers, cd) =
            (if isWorkerCluster then (True, cd\<lparr>Type := ''worker''\<rparr>)
             else if isFederatedCluster then (True, cd\<lparr>Type := ''federated''\<rparr>)
             else (False, cd));
          cd = (if Contains d ''_'' then cd\<lparr>NetworkID := hd (Split d (CHR ''_''))\<rparr> else cd)
      in if \<not> toScanForWorkers then None else Some cd)"

text \<open>Lines 198-208: one iteration of the DATA loop on the pair
  \<open>(atLeastOneWorker, cd)\<close>.\<close>

definition dataStep :: "'v p2p \<Rightarrow> 'v \<Rightarrow> bool \<times> ClusterData \<Rightarrow> bool \<times> ClusterData" where
  "dataStep P v acc =
     (case acc of (atLeastOneWorker, cd) \<Rightarrow>
        (case Unmarshal P v of
           None \<Rightarrow> (atLeastOneWorker, cd)
         | Some nd \<Rightarrow>
             if IsOnline nd then (True, cd\<lparr>Workers := Workers cd @ [ID nd]\<rparr>)
             else (atLeastOneWorker, cd)))"

text \<open>Lines 175-210 for the key \<open>d\<close> with the values \<open>vs = data[d]\<close>: the ClusterData
  that is stored for the key, if any.\<close>

definition scanKey :: "'v p2p \<Rightarrow> string \<Rightarrow> 'v list \<Rightarrow> ClusterData option" where
  "scanKey P d vs =
     (case classify P d of
        None \<Rightarrow> None
      | Some cd0 \<Rightarrow>
          (case fold (dataStep P) vs (False, cd0) of
             (atLeastOneWorker, cd) \<Rightarrow> if atLeastOneWorker then Some cd else None))"

text \<open>A sample of \<open>ledger.LastBlock().Storage\<close>: its entries in the order in which
  \<open>range data\<close> visits them.\<close>

type_synonym 'v Storage = "(string \<times> 'v list) list"

definition ledgerStep ::
  "'v p2p \<Rightarrow> string \<times> 'v list \<Rightarrow> (string \<rightharpoonup> ClusterData) \<Rightarrow> (string \<rightharpoonup> ClusterData)" where
  "ledgerStep P entry clusters =
     (case entry of (d, vs) \<Rightarrow>
        (case scanKey P d vs of None \<Rightarrow> clusters | Some cd \<Rightarrow> clusters(d \<mapsto> cd)))"

text \<open>The sampling loop runs until the context of the token is done: \<open>samples\<close> are
  the storages it reads until then, one per turn. The deferred function then sends the
  values of \<open>clusters\<close> on the channel, in the order \<open>order\<close> in which \<open>range\<close>
  visits the keys of \<open>clusters\<close>; the result is the sequence received on the channel.\<close>

definition scanSamples :: "'v p2p \<Rightarrow> 'v Storage list \<Rightarrow> (string \<rightharpoonup> ClusterData)" where
  "scanSamples P samples = fold (\<lambda>data clusters. fold (ledgerStep P) data clusters) samples Map.empty"

definition retrieveNetworkData :: "'v p2p \<Rightarrow> 'v Storage list \<Rightarrow> string list \<Rightarrow> ClusterData list" where
  "retrieveNetworkData P samples order = List.map_filter (scanSamples P samples) order"

section \<open>One discovery pass (runBackground)\<close>

text \<open>What the network answers when a token is probed: the failure of \<open>p2p.NewNode\<close>,
  of \<open>n.Start\<close> or of \<open>n.Ledger\<close>, or a ledger, given by the samples the scanner
  reads from it before the deadline and the order in which its clusters are sent.\<close>

datatype 'v Probe =
    NewNodeFailed
  | StartFailed
  | LedgerFailed
  | Scan "'v Storage list" "string list"

text \<open>The environment of one pass: the answer for each token, and the order in which
  the sweep at the end of the pass visits the failure map.\<close>

record 'v Env =
  probe :: "Token \<Rightarrow> 'v Probe"
  sweepOrder :: "Token list"

text \<open>Lines 100-107: receiving from the channel until it is closed.\<close>

definition collect :: "ClusterData list \<Rightarrow> bool \<times> ClusterData list" where
  "collect received =
     fold (\<lambda>key (hasWorkers, ledgerK).
             (if length (Workers key) > 0 then True else hasWorkers, ledgerK @ [key]))
          received (False, [])"

text \<open>Lines 65-125: the body of the loop over the tokens.\<close>

definition probeToken :: "'v p2p \<Rightarrow> 'v Env \<Rightarrow> Token \<Rightarrow> DiscoveryServer \<Rightarrow> panic + DiscoveryServer" where
  "probeToken P env token s =
     (case probe env token of
        NewNodeFailed \<Rightarrow> failedToken token s
      | StartFailed \<Rightarrow> failedToken token s
      | LedgerFailed \<Rightarrow> failedToken token s
      | Scan samples order \<Rightarrow>
          (case collect (retrieveNetworkData P samples order) of
             (hasWorkers, ledgerK) \<Rightarrow>
               if hasWorkers
               then Inr (s\<lparr>networkState :=
                             (networkState s)\<lparr>Networks :=
                                (Networks (networkState s))(token \<mapsto> \<lparr> Clusters = ledgerK \<rparr>)\<rparr>,
                           failures := map_option (\<lambda>m. m(token := None)) (failures s)\<rparr>)
               else failedToken token s))"

fun tokenLoop :: "'v p2p \<Rightarrow> 'v Env \<Rightarrow> Token list \<Rightarrow> DiscoveryServer \<Rightarrow> panic + DiscoveryServer" where
  "tokenLoop P env [] s = Inr s"
| "tokenLoop P env (token # rest) s =
     (case probeToken P env token s of
        Inl p \<Rightarrow> Inl p
      | Inr s' \<Rightarrow> tokenLoop P env rest s')"

definition runBackground :: "'v p2p \<Rightarrow> 'v Env \<Rightarrow> DiscoveryServer \<Rightarrow> panic + DiscoveryServer" where
  "runBackground P env s =
     (if length (TokenList (database s)) = 0 then Inr s
      else (case tokenLoop P env (TokenList (database s)) s of
              Inl p \<Rightarrow> Inl p
            | Inr s' \<Rightarrow> Inr (deleteFailedConnections (sweepOrder env) s')))"

section \<open>The discovery loop (Start)\<close>

text \<open>\<open>cancelled i\<close> tells whether \<open>ctx.Done()\<close> is ready when the loop reaches its
  \<open>select\<close> for the \<open>i\<close>-th time; \<open>envs i\<close> is the environment of the pass run then.
  The loop has no other exit: with a context that is never cancelled it does not return,
  which is the value \<open>None\<close>. A panic of a pass ends the goroutine (\<open>Inl\<close>); the only
  \<open>return\<close> hands back the error built by \<open>fmt.Errorf\<close>, kept here by its message.\<close>

partial_function (option) Start ::
  "'v p2p \<Rightarrow> (nat \<Rightarrow> bool) \<Rightarrow> (nat \<Rightarrow> 'v Env) \<Rightarrow> nat \<Rightarrow> DiscoveryServer
     \<Rightarrow> (panic + string \<times> DiscoveryServer) option" where
  "Start P cancelled envs i s =
     (if cancelled i then Some (Inr (''context cancelled'', s))
      else (case runBackground P (envs i) s of
              Inl p \<Rightarrow> Some (Inl p)
            | Inr s' \<Rightarrow> Start P cancelled envs (Suc i) s'))"

section \<open>Predicates and concrete inputs used by the statements\<close>

text \<open>A token is due for eviction when the failure map records a count for it that
  exceeds the threshold (\<open>v > s.errorThreshold\<close>, a signed comparison).\<close>

definition evictable :: "DiscoveryServer \<Rightarrow> Token \<Rightarrow> bool" where
  "evictable s k =
     (case recorded s k of None \<Rightarrow> False | Some v \<Rightarrow> word_sless (errorThreshold s) v)"

text \<open>A server with three known tokens, threshold 3: \<open>net2\<close> has failed four times,
  \<open>net3\<close> three times, and \<open>net2\<close> still has a snapshot from an earlier pass.\<close>

definition sweepExample :: DiscoveryServer where
  "sweepExample =
     \<lparr> database = \<lparr> tokens = [''net1'', ''net2'', ''net3''] \<rparr>,
       networkState = \<lparr> Networks =
         [''net2'' \<mapsto> \<lparr> Clusters =
            [\<lparr> Workers = [''w1''], Type = ''worker'', NetworkID = ''net2'' \<rparr>] \<rparr>] \<rparr>,
       connectionTime = 50 * Second,
       failures = Some [''net2'' \<mapsto> 4, ''net3'' \<mapsto> 3],
       errorThreshold = 3 \<rparr>"

text \<open>The classification rules in the words of the specification: \<open>sub\<close> is a substring
  of \<open>d\<close>; a worker-cluster key equals the worker marker, or contains \<open>_\<close> and contains
  the worker marker as a substring; a federated-cluster key likewise with the federated
  marker.\<close>

definition substring :: "string \<Rightarrow> string \<Rightarrow> bool" where
  "substring sub d = (\<exists>a b. d = a @ sub @ b)"

definition workerKey :: "'v p2p \<Rightarrow> string \<Rightarrow> bool" where
  "workerKey P d = (d = WorkerID P \<or> (substring ''_'' d \<and> substring (WorkerID P) d))"

definition federatedKey :: "'v p2p \<Rightarrow> string \<Rightarrow> bool" where
  "federatedKey P d = (d = FederatedID P \<or> (substring ''_'' d \<and> substring (FederatedID P) d))"

text \<open>The identifiers of the values that decode with the online flag set, in the order
  of the values; and a value that is skipped: undecodable, or decoded as offline.\<close>

definition onlineIDs :: "'v p2p \<Rightarrow> 'v list \<Rightarrow> string list" where
  "onlineIDs P vs = map ID (filter IsOnline (List.map_filter (Unmarshal P) vs))"

definition offlineOrUndecodable :: "'v p2p \<Rightarrow> 'v \<Rightarrow> bool" where
  "offlineOrUndecodable P v = (case Unmarshal P v of None \<Rightarrow> True | Some nd \<Rightarrow> \<not> IsOnline nd)"

text \<open>Two settings of the parameters: the marker values that the specification quotes,
  and markers without an underscore. A raw value is its own decoding, \<open>None\<close> being a
  malformed one.\<close>

definition exampleP2P :: "NodeData option p2p" where
  "exampleP2P = \<lparr> WorkerID = ''WORKER_ID'', FederatedID = ''FEDERATED_ID'', Unmarshal = (\<lambda>v. v) \<rparr>"

definition plainP2P :: "NodeData option p2p" where
  "plainP2P = \<lparr> WorkerID = ''worker'', FederatedID = ''federated'', Unmarshal = (\<lambda>v. v) \<rparr>"

text \<open>The invariant of the snapshot: every ClusterData held in NetworkState has at least
  one worker.\<close>

definition retained :: "DiscoveryServer \<Rightarrow> bool" where
  "retained s =
     (\<forall>token net. Networks (networkState s) token = Some net \<longrightarrow>
        (\<forall>cd \<in> set (Clusters net). Workers cd \<noteq> []))"

text \<open>The passes that \<open>Start\<close> runs from its \<open>i\<close>-th turn on, \<open>k\<close> of them, one after
  the other; a panic of a pass ends the sequence.\<close>

fun runPasses ::
  "'v p2p \<Rightarrow> (nat \<Rightarrow> 'v Env) \<Rightarrow> nat \<Rightarrow> nat \<Rightarrow> DiscoveryServer \<Rightarrow> panic + DiscoveryServer" where
  "runPasses P envs i 0 s = Inr s"
| "runPasses P envs i (Suc k) s =
     (case runBackground P (envs i) s of
        Inl p \<Rightarrow> Inl p
      | Inr s' \<Rightarrow> runPasses P envs (Suc i) k s')"

text \<open>The scenario of a token \<open>net1\<close> that has failed twice and whose ledger now holds the
  key \<open>net1_WORKER_ID\<close> with one online node \<open>w1\<close>: the server before the pass, the
  answers of the network, and the server after the pass.\<close>

definition scenarioServer :: DiscoveryServer where
  "scenarioServer =
     \<lparr> database = \<lparr> tokens = [''net1''] \<rparr>,
       networkState = \<lparr> Networks = Map.empty \<rparr>,
       connectionTime = 50 * Second,
       failures = Some [''net1'' \<mapsto> 2],
       errorThreshold = 3 \<rparr>"

definition scenarioEnv :: "NodeData option Env" where
  "scenarioEnv =
     \<lparr> probe = (\<lambda>token. Scan [[(''net1_WORKER_ID'', [Some \<lparr> ID = ''w1'', IsOnline = True \<rparr>])]]
                            [''net1_WORKER_ID'']),
       sweepOrder = [] \<rparr>"

definition scenarioResult :: DiscoveryServer where
  "scenarioResult =
     \<lparr> database = \<lparr> tokens = [''net1''] \<rparr>,
       networkState = \<lparr> Networks =
         [''net1'' \<mapsto> \<lparr> Clusters =
            [\<lparr> Workers = [''w1''], Type = ''worker'', NetworkID = ''net1'' \<rparr>] \<rparr>] \<rparr>,
       connectionTime = 50 * Second,
       failures = Some Map.empty,
       errorThreshold = 3 \<rparr>"

text \<open>A server whose Token Store is empty while its failure map still holds a count
  above the threshold.\<close>

definition idleServer :: DiscoveryServer where
  "idleServer =
     \<lparr> database = \<lparr> tokens = [] \<rparr>,
       networkState = \<lparr> Networks = Map.empty \<rparr>,
       connectionTime = 50 * Second,
       failures = Some [''net2'' \<mapsto> 4],
       errorThreshold = 3 \<rparr>"

definition idleEnv :: "NodeData option Env" where
  "idleEnv = \<lparr> probe = (\<lambda>token. NewNodeFailed), sweepOrder = [''net2''] \<rparr>"

section \<open>Properties of the eviction sweep\<close>

lemma sweepEntry_frame:
  "errorThreshold (sweepEntry k s) = errorThreshold s"
  "networkState (sweepEntry k s) = networkState s"
  "connectionTime (sweepEntry k s) = connectionTime s"
  by (simp_all add: sweepEntry_def split: option.splits)

lemma recorded_sweepEntry:
  "recorded (sweepEntry k s) j = (if j = k \<and> evictable s k then None else recorded s j)"
  by (simp add: sweepEntry_def recorded_def evictable_def split: option.splits)

lemma evictable_sweepEntry:
  "evictable (sweepEntry k s) j = (evictable s j \<and> j \<noteq> k)"
  by (auto simp: evictable_def recorded_sweepEntry sweepEntry_frame split: option.splits)

lemma tokens_sweepEntry:
  "TokenList (database (sweepEntry k s)) =
     (if evictable s k then removeAll k (TokenList (database s)) else TokenList (database s))"
  by (simp add: sweepEntry_def recorded_def evictable_def TokenList_def Delete_def
           split: option.splits)

lemma sweep_frame:
  "errorThreshold (deleteFailedConnections ks s) = errorThreshold s"
  "networkState (deleteFailedConnections ks s) = networkState s"
  "connectionTime (deleteFailedConnections ks s) = connectionTime s"
  unfolding deleteFailedConnections_def
  by (induction ks arbitrary: s) (simp_all add: sweepEntry_frame)

text \<open>The loop as a whole: the entries it visits are removed when they are due, every
  other entry is kept, whatever the order of the visit.\<close>

lemma recorded_sweep:
  "recorded (deleteFailedConnections ks s) j =
     (if j \<in> set ks \<and> evictable s j then None else recorded s j)"
  unfolding deleteFailedConnections_def
proof (induction ks arbitrary: s)
  case Nil
  show ?case by simp
next
  case (Cons k ks)
  show ?case
    by (auto simp: Cons.IH recorded_sweepEntry evictable_sweepEntry)
qed

lemma tokens_sweep:
  "TokenList (database (deleteFailedConnections ks s)) =
     filter (\<lambda>j. \<not> (j \<in> set ks \<and> evictable s j)) (TokenList (database s))"
  unfolding deleteFailedConnections_def
proof (induction ks arbitrary: s)
  case Nil
  show ?case by simp
next
  case (Cons k ks)
  have "filter (\<lambda>j. \<not> (j \<in> set ks \<and> evictable s j \<and> j \<noteq> k)) (removeAll k xs)
      = filter (\<lambda>j. \<not> ((j = k \<or> j \<in> set ks) \<and> evictable s j)) xs" if "evictable s k" for xs
    using that by (induction xs) auto
  moreover have "filter (\<lambda>j. \<not> (j \<in> set ks \<and> evictable s j \<and> j \<noteq> k)) xs
      = filter (\<lambda>j. \<not> ((j = k \<or> j \<in> set ks) \<and> evictable s j)) xs" if "\<not> evictable s k" for xs
    using that by (induction xs) auto
  ultimately show ?case
    by (simp add: Cons.IH tokens_sweepEntry evictable_sweepEntry)
qed

lemma failureKeys_recorded: "k \<in> failureKeys s \<longleftrightarrow> recorded s k \<noteq> None"
  by (auto simp: failureKeys_def recorded_def split: option.splits)

lemma evictable_in_keys: "evictable s k \<Longrightarrow> k \<in> failureKeys s"
  by (auto simp: evictable_def failureKeys_recorded split: option.splits)

lemma sweepExample_keys: "set [''net3'', ''net2''] = failureKeys sweepExample"
  by (auto simp: sweepExample_def failureKeys_def)

text \<open>C1. When the sweep has visited the keys of the failure map (in any order \<open>ks\<close>),
  every token whose recorded count strictly exceeded \<open>errorThreshold\<close> is absent from
  the Token Store and from the failure map; every other token keeps its entry in the
  failure map and its presence in (or absence from) the Token Store, in particular a token
  whose count equals the threshold; and after the sweep no token is left with a recorded
  count above the threshold.\<close>

theorem deleteFailedConnections_evicts:
  assumes ks: "set ks = failureKeys s"
  defines "s' \<equiv> deleteFailedConnections ks s"
  shows "(evictable s k \<longrightarrow> k \<notin> set (TokenList (database s')) \<and> k \<notin> failureKeys s')
       \<and> (\<not> evictable s k \<longrightarrow>
            recorded s' k = recorded s k
            \<and> (k \<in> set (TokenList (database s')) \<longleftrightarrow> k \<in> set (TokenList (database s))))
       \<and> (recorded s k = Some (errorThreshold s) \<longrightarrow>
            recorded s' k = Some (errorThreshold s)
            \<and> (k \<in> set (TokenList (database s')) \<longleftrightarrow> k \<in> set (TokenList (database s))))
       \<and> \<not> evictable s' k"
proof -
  have in_ks: "k \<in> set ks" if "evictable s k"
    using that ks evictable_in_keys by blast
  have eq: "\<not> evictable s k" if "recorded s k = Some (errorThreshold s)"
    using that by (simp add: evictable_def)
  show ?thesis
    unfolding s'_def
    using in_ks eq
    by (auto simp: tokens_sweep recorded_sweep failureKeys_recorded evictable_def sweep_frame
             split: option.splits)
qed

theorem deleteFailedConnections_evicts_witness:
  "set [''net3'', ''net2''] = failureKeys sweepExample
   \<and> evictable sweepExample ''net2''
   \<and> ''net2'' \<notin> set (TokenList (database (deleteFailedConnections [''net3'', ''net2''] sweepExample)))
   \<and> ''net2'' \<notin> failureKeys (deleteFailedConnections [''net3'', ''net2''] sweepExample)
   \<and> recorded sweepExample ''net3'' = Some (errorThreshold sweepExample)
   \<and> recorded (deleteFailedConnections [''net3'', ''net2''] sweepExample) ''net3'' = Some 3
   \<and> ''net3'' \<in> set (TokenList (database (deleteFailedConnections [''net3'', ''net2''] sweepExample)))"
proof -
  have e: "evictable sweepExample ''net2''"
    by (simp add: evictable_def recorded_def sweepExample_def)
  have r: "recorded sweepExample ''net3'' = Some (errorThreshold sweepExample)"
    by (simp add: recorded_def sweepExample_def)
  have t: "''net3'' \<in> set (TokenList (database sweepExample))" "errorThreshold sweepExample = 3"
    by (simp_all add: TokenList_def sweepExample_def)
  show ?thesis
    using deleteFailedConnections_evicts [OF sweepExample_keys, of "''net2''"]
          deleteFailedConnections_evicts [OF sweepExample_keys, of "''net3''"]
          sweepExample_keys e r t
    by simp
qed

text \<open>C4 (amended). The sweep never changes NetworkState: when a token is evicted, its
  failure counter is removed and the token is deleted from the Token Store, and any entry
  that NetworkState holds for the token stays as it was.\<close>

theorem deleteFailedConnections_keeps_networkState:
  "networkState (deleteFailedConnections ks s) = networkState s
   \<and> (set ks = failureKeys s \<and> evictable s k \<longrightarrow>
        recorded (deleteFailedConnections ks s) k = None
        \<and> k \<notin> set (TokenList (database (deleteFailedConnections ks s))))"
  using evictable_in_keys [of s k]
  by (auto simp: sweep_frame recorded_sweep tokens_sweep)

text \<open>Without the amendment the statement fails on \<open>sweepExample\<close>: \<open>net2\<close> is
  evicted and its entry in NetworkState is still there after the sweep.\<close>

theorem deleteFailedConnections_networkState_counterexample:
  "evictable sweepExample ''net2''
   \<and> set [''net3'', ''net2''] = failureKeys sweepExample
   \<and> Networks (networkState (deleteFailedConnections [''net3'', ''net2''] sweepExample)) ''net2''
       = Some \<lparr> Clusters = [\<lparr> Workers = [''w1''], Type = ''worker'', NetworkID = ''net2'' \<rparr>] \<rparr>"
proof -
  have "evictable sweepExample ''net2''"
    by (simp add: evictable_def recorded_def sweepExample_def)
  moreover have "Networks (networkState sweepExample) ''net2''
       = Some \<lparr> Clusters = [\<lparr> Workers = [''w1''], Type = ''worker'', NetworkID = ''net2'' \<rparr>] \<rparr>"
    by (simp add: sweepExample_def)
  ultimately show ?thesis
    using sweepExample_keys by (simp add: sweep_frame)
qed

theorem deleteFailedConnections_keeps_networkState_witness:
  "set [''net3'', ''net2''] = failureKeys sweepExample
   \<and> evictable sweepExample ''net2''
   \<and> networkState (deleteFailedConnections [''net3'', ''net2''] sweepExample)
       = networkState sweepExample
   \<and> recorded (deleteFailedConnections [''net3'', ''net2''] sweepExample) ''net2'' = None
   \<and> ''net2'' \<notin> set (TokenList (database (deleteFailedConnections [''net3'', ''net2''] sweepExample)))"
proof -
  have e: "evictable sweepExample ''net2''"
    by (simp add: evictable_def recorded_def sweepExample_def)
  show ?thesis
    using deleteFailedConnections_keeps_networkState [of "[''net3'', ''net2'']" sweepExample "''net2''"]
      sweepExample_keys e
    by simp
qed

section \<open>Properties of the ledger scanner\<close>

lemma HasPrefix_iff: "HasPrefix s p \<longleftrightarrow> (\<exists>b. s = p @ b)"
  by (induction s p rule: HasPrefix.induct) auto

lemma Contains_iff: "Contains s sub \<longleftrightarrow> substring sub s"
proof (induction s)
  case Nil
  show ?case by (auto simp: substring_def)
next
  case (Cons c cs)
  have "substring sub (c # cs) \<longleftrightarrow> (\<exists>b. c # cs = sub @ b) \<or> substring sub cs"
  proof
    assume "substring sub (c # cs)"
    then obtain a b where ab: "c # cs = a @ sub @ b" by (auto simp: substring_def)
    show "(\<exists>b. c # cs = sub @ b) \<or> substring sub cs"
    proof (cases a)
      case Nil
      with ab show ?thesis by auto
    next
      case (Cons x a')
      with ab have "cs = a' @ sub @ b" by simp
      then show ?thesis by (auto simp: substring_def)
    qed
  next
    assume "(\<exists>b. c # cs = sub @ b) \<or> substring sub cs"
    then show "substring sub (c # cs)"
    proof
      assume "\<exists>b. c # cs = sub @ b"
      then obtain b where "c # cs = [] @ sub @ b" by auto
      then show ?thesis unfolding substring_def by blast
    next
      assume "substring sub cs"
      then obtain a b where "cs = a @ sub @ b" by (auto simp: substring_def)
      then have "c # cs = (c # a) @ sub @ b" by simp
      then show ?thesis unfolding substring_def by blast
    qed
  qed
  then show ?case by (simp add: Cons.IH HasPrefix_iff)
qed

lemma Split_nonempty: "Split d sep \<noteq> []"
  by (induction d) (auto split: list.splits)

lemma hd_Split: "hd (Split d sep) = takeWhile (\<lambda>c. c \<noteq> sep) d"
  using Split_nonempty [of _ sep]
  by (induction d) (auto split: list.splits)

lemma hd_Split_before_first:
  assumes "d = a @ sep # b" and "sep \<notin> set a"
  shows "hd (Split d sep) = a"
  using assms by (auto simp: hd_Split takeWhile_tail)

lemma dataStep_pair:
  "dataStep P v (atLeastOneWorker, cd) =
     (case Unmarshal P v of
        None \<Rightarrow> (atLeastOneWorker, cd)
      | Some nd \<Rightarrow>
          if IsOnline nd then (True, cd\<lparr>Workers := Workers cd @ [ID nd]\<rparr>)
          else (atLeastOneWorker, cd))"
  by (simp add: dataStep_def)

lemma fold_dataStep:
  "fold (dataStep P) vs (atLeastOneWorker, cd) =
     (atLeastOneWorker \<or> onlineIDs P vs \<noteq> [], cd\<lparr>Workers := Workers cd @ onlineIDs P vs\<rparr>)"
proof (induction vs arbitrary: atLeastOneWorker cd)
  case Nil
  show ?case by (simp add: onlineIDs_def List.map_filter_simps)
next
  case (Cons v vs)
  show ?case
    by (cases "Unmarshal P v")
       (auto simp: dataStep_pair Cons.IH onlineIDs_def List.map_filter_simps)
qed

lemma classify_cases:
  "classify P d =
     (if workerKey P d then
        Some \<lparr> Workers = [], Type = ''worker'',
               NetworkID = (if substring ''_'' d then takeWhile (\<lambda>c. c \<noteq> CHR ''_'') d else []) \<rparr>
      else if federatedKey P d then
        Some \<lparr> Workers = [], Type = ''federated'',
               NetworkID = (if substring ''_'' d then takeWhile (\<lambda>c. c \<noteq> CHR ''_'') d else []) \<rparr>
      else None)"
  by (simp add: classify_def workerKey_def federatedKey_def Contains_iff hd_Split Let_def)

lemma scanKey_onlineIDs:
  "scanKey P d vs =
     (case classify P d of
        None \<Rightarrow> None
      | Some cd0 \<Rightarrow> if onlineIDs P vs = [] then None else Some (cd0\<lparr>Workers := onlineIDs P vs\<rparr>))"
  by (auto simp: scanKey_def fold_dataStep classify_cases split: option.splits)


lemma fold_ledgerStep_origin:
  assumes "fold (ledgerStep P) data clusters d = Some cd"
  shows "clusters d = Some cd \<or> (\<exists>vs. (d, vs) \<in> set data \<and> scanKey P d vs = Some cd)"
  using assms
proof (induction data arbitrary: clusters)
  case Nil
  then show ?case by simp
next
  case (Cons entry data)
  obtain d' vs' where entry: "entry = (d', vs')" by (cases entry)
  from Cons.prems have "fold (ledgerStep P) data (ledgerStep P entry clusters) d = Some cd"
    by simp
  from Cons.IH [OF this]
  show ?case
    by (auto simp: entry ledgerStep_def split: option.splits if_splits)
qed

lemma scanSamples_origin_aux:
  assumes "fold (\<lambda>data clusters. fold (ledgerStep P) data clusters) samples clusters d = Some cd"
  shows "clusters d = Some cd
       \<or> (\<exists>data \<in> set samples. \<exists>vs. (d, vs) \<in> set data \<and> scanKey P d vs = Some cd)"
  using assms
proof (induction samples arbitrary: clusters)
  case Nil
  then show ?case by simp
next
  case (Cons data samples)
  from Cons.prems
  have "fold (\<lambda>data clusters. fold (ledgerStep P) data clusters) samples
          (fold (ledgerStep P) data clusters) d = Some cd"
    by simp
  from Cons.IH [OF this] show ?case
    using fold_ledgerStep_origin [of P data clusters d cd] by auto
qed

lemma scanSamples_origin:
  assumes "scanSamples P samples d = Some cd"
  shows "\<exists>data \<in> set samples. \<exists>vs. (d, vs) \<in> set data \<and> scanKey P d vs = Some cd"
  using scanSamples_origin_aux [of P samples Map.empty d cd] assms
  by (simp add: scanSamples_def)

lemma retrieveNetworkData_origin:
  assumes "cd \<in> set (retrieveNetworkData P samples order)"
  shows "\<exists>d. scanSamples P samples d = Some cd"
  using assms by (auto simp: retrieveNetworkData_def List.map_filter_def)

lemma scanKey_Workers: "scanKey P d vs = Some cd \<Longrightarrow> Workers cd = onlineIDs P vs \<and> Workers cd \<noteq> []"
  by (auto simp: scanKey_onlineIDs split: option.splits if_splits)

text \<open>C5 (amended). A key is classified as a worker cluster exactly when it equals the worker
  marker or contains \<open>_\<close> and the worker marker; as a federated cluster exactly when the
  same rule holds with the federated marker and the worker rule does not hold (the
  \<open>switch\<close> tests the worker rule first); for any other key nothing is produced, neither
  by the body of the loop nor by the scanner as a whole. For a classified key, NetworkID is
  the part of the key before its first \<open>_\<close>, and empty when the key has no \<open>_\<close>.\<close>

theorem classify_rules:
  "(map_option Type (classify P d) = Some ''worker'' \<longleftrightarrow> workerKey P d)
   \<and> (map_option Type (classify P d) = Some ''federated'' \<longleftrightarrow> federatedKey P d \<and> \<not> workerKey P d)
   \<and> (classify P d = None \<longleftrightarrow> \<not> workerKey P d \<and> \<not> federatedKey P d)
   \<and> (\<not> workerKey P d \<and> \<not> federatedKey P d \<longrightarrow>
        scanKey P d vs = None \<and> scanSamples P samples d = None)
   \<and> (\<forall>cd. classify P d = Some cd \<or> scanKey P d vs = Some cd \<longrightarrow>
          (Type cd = ''worker'' \<longleftrightarrow> workerKey P d)
        \<and> (Type cd = ''federated'' \<longleftrightarrow> federatedKey P d \<and> \<not> workerKey P d)
        \<and> (\<forall>a b. d = a @ ''_'' @ b \<and> CHR ''_'' \<notin> set a \<longrightarrow> NetworkID cd = a)
        \<and> (\<not> substring ''_'' d \<longrightarrow> NetworkID cd = []))"
proof -
  have none: "scanKey P d vs' = None" if "\<not> workerKey P d" "\<not> federatedKey P d" for vs'
    using that by (simp add: scanKey_onlineIDs classify_cases)
  have none': "scanSamples P samples d = None" if "\<not> workerKey P d" "\<not> federatedKey P d"
  proof (rule ccontr)
    assume "scanSamples P samples d \<noteq> None"
    then obtain cd where "scanSamples P samples d = Some cd" by auto
    from scanSamples_origin [OF this] none [OF that] show False by auto
  qed
  have nid: "takeWhile (\<lambda>c. c \<noteq> CHR ''_'') d = a \<and> substring ''_'' d"
    if "d = a @ ''_'' @ b" "CHR ''_'' \<notin> set a" for a b
    using that by (auto simp: takeWhile_tail substring_def)
  have cl: "(Type cd = ''worker'' \<longleftrightarrow> workerKey P d)
        \<and> (Type cd = ''federated'' \<longleftrightarrow> federatedKey P d \<and> \<not> workerKey P d)
        \<and> (\<forall>a b. d = a @ ''_'' @ b \<and> CHR ''_'' \<notin> set a \<longrightarrow> NetworkID cd = a)
        \<and> (\<not> substring ''_'' d \<longrightarrow> NetworkID cd = [])"
    if "classify P d = Some cd \<or> scanKey P d vs = Some cd" for cd
    using that nid
    by (auto simp: scanKey_onlineIDs classify_cases split: if_splits option.splits)
  have ty: "(map_option Type (classify P d) = Some ''worker'' \<longleftrightarrow> workerKey P d)"
    "(map_option Type (classify P d) = Some ''federated'' \<longleftrightarrow> federatedKey P d \<and> \<not> workerKey P d)"
    "(classify P d = None \<longleftrightarrow> \<not> workerKey P d \<and> \<not> federatedKey P d)"
    by (simp_all add: classify_cases)
  show ?thesis
    using none none' cl ty by blast
qed

text \<open>Without the amendment the statement fails for a key that satisfies both rules: it
  contains \<open>_\<close> and the federated marker, and is classified as a worker cluster.\<close>

theorem classify_federated_counterexample:
  "(Contains ''n_WORKER_ID_FEDERATED_ID'' ''_''
      \<and> Contains ''n_WORKER_ID_FEDERATED_ID'' (FederatedID exampleP2P))
   \<and> scanKey exampleP2P ''n_WORKER_ID_FEDERATED_ID'' [Some \<lparr> ID = ''w1'', IsOnline = True \<rparr>]
       = Some \<lparr> Workers = [''w1''], Type = ''worker'', NetworkID = ''n'' \<rparr>"
  by (simp add: scanKey_def classify_def dataStep_def exampleP2P_def)

theorem classify_rules_witness:
  "workerKey exampleP2P ''net1_WORKER_ID''
   \<and> scanKey exampleP2P ''net1_WORKER_ID'' [Some \<lparr> ID = ''w1'', IsOnline = True \<rparr>]
       = Some \<lparr> Workers = [''w1''], Type = ''worker'', NetworkID = ''net1'' \<rparr>
   \<and> ''net1_WORKER_ID'' = ''net1'' @ ''_'' @ ''WORKER_ID'' \<and> CHR ''_'' \<notin> set ''net1''
   \<and> federatedKey plainP2P ''federated'' \<and> \<not> workerKey plainP2P ''federated''
   \<and> \<not> substring ''_'' ''federated''
   \<and> classify plainP2P ''federated'' = Some \<lparr> Workers = [], Type = ''federated'', NetworkID = [] \<rparr>
   \<and> \<not> workerKey exampleP2P ''net1_services'' \<and> \<not> federatedKey exampleP2P ''net1_services''
   \<and> scanKey exampleP2P ''net1_services'' [Some \<lparr> ID = ''w1'', IsOnline = True \<rparr>] = None
   \<and> scanSamples exampleP2P [[(''net1_services'', [Some \<lparr> ID = ''w1'', IsOnline = True \<rparr>])]]
        ''net1_services'' = None"
proof -
  have k: "workerKey exampleP2P ''net1_WORKER_ID''"
    "federatedKey plainP2P ''federated''" "\<not> workerKey plainP2P ''federated''"
    "\<not> substring ''_'' ''federated''"
    "\<not> workerKey exampleP2P ''net1_services''" "\<not> federatedKey exampleP2P ''net1_services''"
    by (simp_all add: workerKey_def federatedKey_def Contains_iff [symmetric] exampleP2P_def
          plainP2P_def)
  have v: "scanKey exampleP2P ''net1_WORKER_ID'' [Some \<lparr> ID = ''w1'', IsOnline = True \<rparr>]
       = Some \<lparr> Workers = [''w1''], Type = ''worker'', NetworkID = ''net1'' \<rparr>"
    "classify plainP2P ''federated'' = Some \<lparr> Workers = [], Type = ''federated'', NetworkID = [] \<rparr>"
    by (simp_all add: scanKey_def classify_def dataStep_def exampleP2P_def plainP2P_def)
  have d: "''net1_WORKER_ID'' = ''net1'' @ ''_'' @ ''WORKER_ID'' \<and> CHR ''_'' \<notin> set ''net1''"
    by simp
  note w = classify_rules [of exampleP2P "''net1_WORKER_ID''"
      "[Some \<lparr> ID = ''w1'', IsOnline = True \<rparr>]" "[]",
      THEN conjunct2, THEN conjunct2, THEN conjunct2, THEN conjunct2, rule_format,
      OF disjI2, OF v(1)]
  have n: "NetworkID \<lparr> Workers = [''w1''], Type = ''worker'', NetworkID = ''net1'' \<rparr> = ''net1''"
    using w [THEN conjunct2, THEN conjunct2, THEN conjunct1, rule_format, OF d] .
  show ?thesis
    using k v n
      classify_rules [of exampleP2P "''net1_services''" "[Some \<lparr> ID = ''w1'', IsOnline = True \<rparr>]"
        "[[(''net1_services'', [Some \<lparr> ID = ''w1'', IsOnline = True \<rparr>])]]"]
    by simp
qed

lemma onlineIDs_empty: "onlineIDs P vs = [] \<longleftrightarrow> (\<forall>v \<in> set vs. offlineOrUndecodable P v)"
  by (induction vs)
     (auto simp: onlineIDs_def offlineOrUndecodable_def split: option.splits)

lemma ledgerStep_at:
  "ledgerStep P (d, vs) clusters d' =
     (if d' = d then (case scanKey P d vs of None \<Rightarrow> clusters d | Some cd \<Rightarrow> Some cd)
      else clusters d')"
  by (simp add: ledgerStep_def split: option.splits)

lemma fold_ledgerStep_other:
  "d \<notin> fst ` set data \<Longrightarrow> fold (ledgerStep P) data clusters d = clusters d"
proof (induction data arbitrary: clusters)
  case Nil
  show ?case by simp
next
  case (Cons entry data)
  obtain d' vs' where entry: "entry = (d', vs')" by (cases entry)
  from Cons.prems have ne: "d' \<noteq> d" and rest: "d \<notin> fst ` set data"
    by (auto simp: entry)
  have "ledgerStep P entry clusters d = clusters d"
    using ne by (simp add: entry ledgerStep_at)
  with Cons.IH [OF rest, of "ledgerStep P entry clusters"] show ?case by simp
qed

lemma fold_ledgerStep_at:
  assumes "distinct (map fst data)" and "(d, vs) \<in> set data"
  shows "fold (ledgerStep P) data clusters d =
           (case scanKey P d vs of None \<Rightarrow> clusters d | Some cd \<Rightarrow> Some cd)"
  using assms
proof (induction data arbitrary: clusters)
  case Nil
  then show ?case by simp
next
  case (Cons entry data)
  obtain d' vs' where entry: "entry = (d', vs')" by (cases entry)
  show ?case
  proof (cases "entry = (d, vs)")
    case True
    with Cons.prems(1) have "d \<notin> fst ` set data" by auto
    from fold_ledgerStep_other [OF this, of P "ledgerStep P entry clusters"]
    have "fold (ledgerStep P) (entry # data) clusters d = ledgerStep P (d, vs) clusters d"
      by (simp add: True)
    moreover have "ledgerStep P (d, vs) clusters d
        = (case scanKey P d vs of None \<Rightarrow> clusters d | Some cd \<Rightarrow> Some cd)"
      by (simp add: ledgerStep_at)
    ultimately show ?thesis by (rule trans)
  next
    case False
    with Cons.prems(2) have in_rest: "(d, vs) \<in> set data" by simp
    then have "d \<in> fst ` set data" by force
    with Cons.prems(1) have ne: "d' \<noteq> d" by (auto simp: entry)
    have "ledgerStep P entry clusters d = clusters d"
      using ne by (simp add: entry ledgerStep_at)
    moreover from Cons.prems(1) have "distinct (map fst data)" by simp
    ultimately show ?thesis
      using Cons.IH [OF _ in_rest, of "ledgerStep P entry clusters"]
      by (simp split: option.splits)
  qed
qed

lemma scanSamples_snoc:
  "scanSamples P (earlier @ [data]) = fold (ledgerStep P) data (scanSamples P earlier)"
  by (simp add: scanSamples_def)

lemma retrieveNetworkData_emits:
  assumes "scanSamples P samples d = Some cd" and "d \<in> set order"
  shows "cd \<in> set (retrieveNetworkData P samples order)"
proof -
  have "cd \<in> set (List.map_filter f xs)" if "f d = Some cd" "d \<in> set xs"
    for f :: "string \<Rightarrow> ClusterData option" and xs
    using that by (induction xs) (auto split: option.splits)
  from this [of "scanSamples P samples" order, OF assms]
  show ?thesis by (simp add: retrieveNetworkData_def)
qed

lemma scanSamples_last_sample:
  assumes "distinct (map fst data)" and "(d, vs) \<in> set data"
    and "classify P d = Some cd0" and "onlineIDs P vs \<noteq> []"
  shows "scanSamples P (earlier @ [data]) d = Some (cd0\<lparr>Workers := onlineIDs P vs\<rparr>)"
  using fold_ledgerStep_at [OF assms(1,2), of P "scanSamples P earlier"] assms(3,4)
  by (simp add: scanSamples_snoc scanKey_onlineIDs)

lemma scan_single_entry:
  "scanSamples P [[(d, vs)]] d = scanKey P d vs"
  "retrieveNetworkData P [[(d, vs)]] [d] = (case scanKey P d vs of None \<Rightarrow> [] | Some cd \<Rightarrow> [cd])"
  by (simp_all add: retrieveNetworkData_def scanSamples_def ledgerStep_def split: option.splits)

text \<open>C6. For a classified key the values that do not decode are skipped, there being no
  error result, and the ClusterData stored for the key has as Workers exactly the
  identifiers of the values that decode as online, in the order of the values; it is
  stored only if that list is not empty. In particular an online \<open>A\<close> followed by an
  offline \<open>B\<close> under a worker key give Workers \<open>[A]\<close> and Type \<open>worker\<close>, and that
  ClusterData is kept in \<open>clusters\<close> and sent on the channel; a key all of whose values
  are offline or undecodable gives no ClusterData, in the body of the loop and in the
  scanner as a whole. In general, when the last sample read holds a classified key with an
  online value, the scanner keeps the ClusterData of that entry under the key, whatever the
  earlier samples held, and sends it when the key is visited.\<close>

theorem scanKey_online_workers:
  "scanKey P d vs =
     (case classify P d of
        None \<Rightarrow> None
      | Some cd0 \<Rightarrow> if onlineIDs P vs = [] then None else Some (cd0\<lparr>Workers := onlineIDs P vs\<rparr>))
   \<and> (workerKey P d \<and> Unmarshal P x = Some \<lparr> ID = A, IsOnline = True \<rparr>
        \<and> Unmarshal P y = Some \<lparr> ID = B, IsOnline = False \<rparr> \<longrightarrow>
        (\<exists>nid. scanKey P d [x, y] = Some \<lparr> Workers = [A], Type = ''worker'', NetworkID = nid \<rparr>
            \<and> scanSamples P [[(d, [x, y])]] d
                = Some \<lparr> Workers = [A], Type = ''worker'', NetworkID = nid \<rparr>
            \<and> retrieveNetworkData P [[(d, [x, y])]] [d]
                = [\<lparr> Workers = [A], Type = ''worker'', NetworkID = nid \<rparr>]))
   \<and> ((\<forall>v \<in> set vs. offlineOrUndecodable P v) \<longrightarrow> scanKey P d vs = None)
   \<and> ((\<forall>data \<in> set samples. \<forall>vs'. (d, vs') \<in> set data \<longrightarrow>
          (\<forall>v \<in> set vs'. offlineOrUndecodable P v)) \<longrightarrow>
        scanSamples P samples d = None)
   \<and> (distinct (map fst data) \<and> (d, vs) \<in> set data \<and> classify P d = Some cdInit
        \<and> onlineIDs P vs \<noteq> [] \<longrightarrow>
        scanSamples P (earlier @ [data]) d = Some (cdInit\<lparr>Workers := onlineIDs P vs\<rparr>)
        \<and> (d \<in> set order \<longrightarrow>
             cdInit\<lparr>Workers := onlineIDs P vs\<rparr> \<in> set (retrieveNetworkData P (earlier @ [data]) order)))"
proof -
  have a: "\<exists>nid. scanKey P d [x, y] = Some \<lparr> Workers = [A], Type = ''worker'', NetworkID = nid \<rparr>
            \<and> scanSamples P [[(d, [x, y])]] d
                = Some \<lparr> Workers = [A], Type = ''worker'', NetworkID = nid \<rparr>
            \<and> retrieveNetworkData P [[(d, [x, y])]] [d]
                = [\<lparr> Workers = [A], Type = ''worker'', NetworkID = nid \<rparr>]"
    if "workerKey P d" "Unmarshal P x = Some \<lparr> ID = A, IsOnline = True \<rparr>"
       "Unmarshal P y = Some \<lparr> ID = B, IsOnline = False \<rparr>"
  proof -
    from that obtain nid
      where "scanKey P d [x, y] = Some \<lparr> Workers = [A], Type = ''worker'', NetworkID = nid \<rparr>"
      by (simp add: scanKey_onlineIDs classify_cases onlineIDs_def)
    then show ?thesis by (simp add: scan_single_entry)
  qed
  have b: "scanKey P d vs' = None" if "\<forall>v \<in> set vs'. offlineOrUndecodable P v" for vs'
    using that onlineIDs_empty [of P vs']
    by (simp add: scanKey_onlineIDs split: option.splits)
  have c: "scanSamples P samples d = None"
    if h: "\<forall>data \<in> set samples. \<forall>vs'. (d, vs') \<in> set data \<longrightarrow>
          (\<forall>v \<in> set vs'. offlineOrUndecodable P v)"
  proof (rule ccontr)
    assume "scanSamples P samples d \<noteq> None"
    then obtain cd where "scanSamples P samples d = Some cd" by auto
    from scanSamples_origin [OF this] obtain data vs'
      where "data \<in> set samples" "(d, vs') \<in> set data" "scanKey P d vs' = Some cd"
      by blast
    with h b [of vs'] show False by auto
  qed
  have e: "scanSamples P (earlier @ [data]) d = Some (cdInit\<lparr>Workers := onlineIDs P vs\<rparr>)
        \<and> (d \<in> set order \<longrightarrow>
             cdInit\<lparr>Workers := onlineIDs P vs\<rparr> \<in> set (retrieveNetworkData P (earlier @ [data]) order))"
    if "distinct (map fst data)" "(d, vs) \<in> set data" "classify P d = Some cdInit"
       "onlineIDs P vs \<noteq> []"
    using scanSamples_last_sample [OF that, of earlier]
      retrieveNetworkData_emits [of P "earlier @ [data]" d "cdInit\<lparr>Workers := onlineIDs P vs\<rparr>" order]
    by blast
  show ?thesis
    using a b [of vs] c e scanKey_onlineIDs [of P d vs] by blast
qed

theorem scanKey_online_workers_witness:
  "workerKey exampleP2P ''net1_WORKER_ID''
   \<and> scanKey exampleP2P ''net1_WORKER_ID''
        [Some \<lparr> ID = ''A'', IsOnline = True \<rparr>, None, Some \<lparr> ID = ''B'', IsOnline = False \<rparr>]
       = Some \<lparr> Workers = [''A''], Type = ''worker'', NetworkID = ''net1'' \<rparr>
   \<and> scanKey exampleP2P ''net1_WORKER_ID''
        [Some \<lparr> ID = ''A'', IsOnline = True \<rparr>, Some \<lparr> ID = ''B'', IsOnline = False \<rparr>]
       = Some \<lparr> Workers = [''A''], Type = ''worker'', NetworkID = ''net1'' \<rparr>
   \<and> retrieveNetworkData exampleP2P
        [[(''net1_WORKER_ID'',
           [Some \<lparr> ID = ''A'', IsOnline = True \<rparr>, Some \<lparr> ID = ''B'', IsOnline = False \<rparr>])]]
        [''net1_WORKER_ID'']
       = [\<lparr> Workers = [''A''], Type = ''worker'', NetworkID = ''net1'' \<rparr>]
   \<and> offlineOrUndecodable exampleP2P None
   \<and> offlineOrUndecodable exampleP2P (Some \<lparr> ID = ''B'', IsOnline = False \<rparr>)
   \<and> scanKey exampleP2P ''net1_WORKER_ID'' [None, Some \<lparr> ID = ''B'', IsOnline = False \<rparr>] = None
   \<and> scanSamples exampleP2P
        [[(''net1_WORKER_ID'', [None, Some \<lparr> ID = ''B'', IsOnline = False \<rparr>])]]
        ''net1_WORKER_ID'' = None
   \<and> distinct (map fst
        [(''net1_services'', [None]),
         (''net1_WORKER_ID'',
           [Some \<lparr> ID = ''A'', IsOnline = True \<rparr>, None, Some \<lparr> ID = ''B'', IsOnline = False \<rparr>])])
   \<and> scanSamples exampleP2P
        ([[(''net1_WORKER_ID'', [None])]] @
         [[(''net1_services'', [None]),
           (''net1_WORKER_ID'',
             [Some \<lparr> ID = ''A'', IsOnline = True \<rparr>, None, Some \<lparr> ID = ''B'', IsOnline = False \<rparr>])]])
        ''net1_WORKER_ID''
       = Some \<lparr> Workers = [''A''], Type = ''worker'', NetworkID = ''net1'' \<rparr>
   \<and> \<lparr> Workers = [''A''], Type = ''worker'', NetworkID = ''net1'' \<rparr>
       \<in> set (retrieveNetworkData exampleP2P
            ([[(''net1_WORKER_ID'', [None])]] @
             [[(''net1_services'', [None]),
               (''net1_WORKER_ID'',
                 [Some \<lparr> ID = ''A'', IsOnline = True \<rparr>, None,
                  Some \<lparr> ID = ''B'', IsOnline = False \<rparr>])]])
            [''net1_WORKER_ID''])"
proof -
  let ?A = "Some \<lparr> ID = ''A'', IsOnline = True \<rparr>"
  let ?B = "Some \<lparr> ID = ''B'', IsOnline = False \<rparr>"
  let ?data = "[(''net1_services'', [None]), (''net1_WORKER_ID'', [?A, None, ?B])]"
  let ?C = "\<lparr> Workers = [''A''], Type = ''worker'', NetworkID = ''net1'' \<rparr>"
  have k: "workerKey exampleP2P ''net1_WORKER_ID''"
    by (simp add: workerKey_def Contains_iff [symmetric] exampleP2P_def)
  have o: "offlineOrUndecodable exampleP2P None" "offlineOrUndecodable exampleP2P ?B"
    by (simp_all add: offlineOrUndecodable_def exampleP2P_def)
  have u: "Unmarshal exampleP2P ?A = Some \<lparr> ID = ''A'', IsOnline = True \<rparr>"
    "Unmarshal exampleP2P ?B = Some \<lparr> ID = ''B'', IsOnline = False \<rparr>"
    by (simp_all add: exampleP2P_def)
  have ids: "onlineIDs exampleP2P [?A, None, ?B] = [''A'']"
    by (simp add: onlineIDs_def exampleP2P_def)
  have cl: "classify exampleP2P ''net1_WORKER_ID''
      = Some \<lparr> Workers = [], Type = ''worker'', NetworkID = ''net1'' \<rparr>"
    by (simp add: classify_def exampleP2P_def)
  note t1 = scanKey_online_workers [where P = exampleP2P and d = "''net1_WORKER_ID''"
      and vs = "[?A, None, ?B]" and x = ?A and A = "''A''" and y = ?B and B = "''B''"
      and samples = "[]" and data = ?data and earlier = "[[(''net1_WORKER_ID'', [None])]]"
      and order = "[''net1_WORKER_ID'']"
      and cdInit = "\<lparr> Workers = [], Type = ''worker'', NetworkID = ''net1'' \<rparr>"]
  note t2 = scanKey_online_workers [where P = exampleP2P and d = "''net1_WORKER_ID''"
      and vs = "[None, ?B]" and samples = "[[(''net1_WORKER_ID'', [None, ?B])]]"]
  have s1: "scanKey exampleP2P ''net1_WORKER_ID'' [?A, None, ?B] = Some ?C"
    using t1 [THEN conjunct1] by (simp add: ids cl)
  from t1 [THEN conjunct2, THEN conjunct1, THEN mp, OF conjI, OF k conjI, OF u]
  obtain nid where n: "scanKey exampleP2P ''net1_WORKER_ID'' [?A, ?B]
        = Some \<lparr> Workers = [''A''], Type = ''worker'', NetworkID = nid \<rparr>"
      "retrieveNetworkData exampleP2P [[(''net1_WORKER_ID'', [?A, ?B])]] [''net1_WORKER_ID'']
        = [\<lparr> Workers = [''A''], Type = ''worker'', NetworkID = nid \<rparr>]"
    by blast
  have "scanKey exampleP2P ''net1_WORKER_ID'' [?A, ?B] = Some ?C"
    by (simp add: scanKey_def classify_def dataStep_def exampleP2P_def)
  with n(1) have "nid = ''net1''" by simp
  with n have s2: "scanKey exampleP2P ''net1_WORKER_ID'' [?A, ?B] = Some ?C"
      "retrieveNetworkData exampleP2P [[(''net1_WORKER_ID'', [?A, ?B])]] [''net1_WORKER_ID'']
        = [?C]"
    by simp_all
  have h1: "\<forall>v \<in> set [None, ?B]. offlineOrUndecodable exampleP2P v"
    using o by simp
  have h2: "\<forall>data \<in> set [[(''net1_WORKER_ID'', [None, ?B])]].
      \<forall>vs'. (''net1_WORKER_ID'', vs') \<in> set data \<longrightarrow>
        (\<forall>v \<in> set vs'. offlineOrUndecodable exampleP2P v)"
    using o by simp
  have s3: "scanKey exampleP2P ''net1_WORKER_ID'' [None, ?B] = None"
    "scanSamples exampleP2P [[(''net1_WORKER_ID'', [None, ?B])]] ''net1_WORKER_ID'' = None"
    using t2 [THEN conjunct2, THEN conjunct2, THEN conjunct1, THEN mp, OF h1]
          t2 [THEN conjunct2, THEN conjunct2, THEN conjunct2, THEN conjunct1, THEN mp, OF h2]
    by - assumption+
  have h3: "distinct (map fst ?data) \<and> (''net1_WORKER_ID'', [?A, None, ?B]) \<in> set ?data
      \<and> classify exampleP2P ''net1_WORKER_ID''
          = Some \<lparr> Workers = [], Type = ''worker'', NetworkID = ''net1'' \<rparr>
      \<and> onlineIDs exampleP2P [?A, None, ?B] \<noteq> []"
    by (simp add: ids cl)
  have m: "''net1_WORKER_ID'' \<in> set [''net1_WORKER_ID'']" by simp
  note t5 = t1 [THEN conjunct2, THEN conjunct2, THEN conjunct2, THEN conjunct2, THEN mp, OF h3]
  have s5: "scanSamples exampleP2P ([[(''net1_WORKER_ID'', [None])]] @ [?data]) ''net1_WORKER_ID''
        = Some ?C"
    "?C \<in> set (retrieveNetworkData exampleP2P ([[(''net1_WORKER_ID'', [None])]] @ [?data])
              [''net1_WORKER_ID''])"
    using t5 [THEN conjunct1] t5 [THEN conjunct2, THEN mp, OF m]
    by (simp_all add: ids)
  have dd: "distinct (map fst ?data)" by simp
  show ?thesis
    using k o s1 s2 s3 s5 dd by simp
qed

section \<open>Properties of one pass\<close>

lemma collect_fold:
  "fold (\<lambda>key (hasWorkers, ledgerK).
             (if length (Workers key) > 0 then True else hasWorkers, ledgerK @ [key]))
        received (h, acc)
   = (h \<or> (\<exists>key \<in> set received. Workers key \<noteq> []), acc @ received)"
  by (induction received arbitrary: h acc) auto

lemma collect_eq: "collect received = ((\<exists>key \<in> set received. Workers key \<noteq> []), received)"
  using collect_fold [of received False "[]"] by (simp add: collect_def)

lemma failedToken_allocated:
  "failures s = Some m \<Longrightarrow>
   failedToken token s = Inr (s\<lparr>failures := Some (m(token \<mapsto> failureCount s token + 1))\<rparr>)"
  by (simp add: failedToken_def)

lemma failedToken_nil: "failures s = None \<Longrightarrow> failedToken token s = Inl AssignmentToEntryInNilMap"
  by (simp add: failedToken_def)

lemma failedToken_Inr:
  assumes "failedToken token s = Inr s'"
  shows "networkState s' = networkState s" "database s' = database s"
    "errorThreshold s' = errorThreshold s" "connectionTime s' = connectionTime s"
    "recorded s' token = Some (failureCount s token + 1)"
    "t \<noteq> token \<Longrightarrow> recorded s' t = recorded s t"
    "failures s' \<noteq> None"
  using assms by (auto simp: failedToken_def recorded_def split: option.splits)

lemma probeToken_Scan:
  assumes "probe env token = Scan samples order"
  shows "probeToken P env token s =
     (if \<exists>cd \<in> set (retrieveNetworkData P samples order). Workers cd \<noteq> []
      then Inr (s\<lparr>networkState :=
                    (networkState s)\<lparr>Networks :=
                       (Networks (networkState s))
                         (token \<mapsto> \<lparr> Clusters = retrieveNetworkData P samples order \<rparr>)\<rparr>,
                  failures := map_option (\<lambda>m. m(token := None)) (failures s)\<rparr>)
      else failedToken token s)"
  using assms by (simp add: probeToken_def collect_eq)

lemma probeToken_failed:
  assumes "probe env token = NewNodeFailed \<or> probe env token = StartFailed
           \<or> probe env token = LedgerFailed"
  shows "probeToken P env token s = failedToken token s"
  using assms by (auto simp: probeToken_def)


lemma probeToken_success:
  assumes "probe env token = Scan samples order"
    and "\<exists>cd \<in> set (retrieveNetworkData P samples order). Workers cd \<noteq> []"
    and "probeToken P env token s = Inr s'"
  shows "Networks (networkState s') token = Some \<lparr> Clusters = retrieveNetworkData P samples order \<rparr>"
    and "recorded s' token = None"
  using assms by (auto simp: probeToken_Scan recorded_def split: option.splits)

lemma probeToken_branches:
  "probeToken P env t s = failedToken t s
   \<or> (\<exists>samples order. probe env t = Scan samples order
        \<and> (\<exists>cd \<in> set (retrieveNetworkData P samples order). Workers cd \<noteq> [])
        \<and> probeToken P env t s =
            Inr (s\<lparr>networkState :=
                    (networkState s)\<lparr>Networks :=
                       (Networks (networkState s))
                         (t \<mapsto> \<lparr> Clusters = retrieveNetworkData P samples order \<rparr>)\<rparr>,
                  failures := map_option (\<lambda>m. m(t := None)) (failures s)\<rparr>))"
  by (cases "probe env t") (auto simp: probeToken_failed probeToken_Scan)

lemma probeToken_other:
  assumes "probeToken P env t s = Inr s'" and "t \<noteq> token"
  shows "Networks (networkState s') token = Networks (networkState s) token"
    and "recorded s' token = recorded s token"
proof -
  from probeToken_branches [of P env t s]
  show "Networks (networkState s') token = Networks (networkState s) token"
  proof
    assume "probeToken P env t s = failedToken t s"
    with assms(1) show ?thesis by (simp add: failedToken_Inr(1))
  next
    assume "\<exists>samples order. probe env t = Scan samples order
        \<and> (\<exists>cd \<in> set (retrieveNetworkData P samples order). Workers cd \<noteq> [])
        \<and> probeToken P env t s =
            Inr (s\<lparr>networkState :=
                    (networkState s)\<lparr>Networks :=
                       (Networks (networkState s))
                         (t \<mapsto> \<lparr> Clusters = retrieveNetworkData P samples order \<rparr>)\<rparr>,
                  failures := map_option (\<lambda>m. m(t := None)) (failures s)\<rparr>)"
    with assms show ?thesis by auto
  qed
  from probeToken_branches [of P env t s]
  show "recorded s' token = recorded s token"
  proof
    assume "probeToken P env t s = failedToken t s"
    with assms show ?thesis by (simp add: failedToken_Inr(6))
  next
    assume "\<exists>samples order. probe env t = Scan samples order
        \<and> (\<exists>cd \<in> set (retrieveNetworkData P samples order). Workers cd \<noteq> [])
        \<and> probeToken P env t s =
            Inr (s\<lparr>networkState :=
                    (networkState s)\<lparr>Networks :=
                       (Networks (networkState s))
                         (t \<mapsto> \<lparr> Clusters = retrieveNetworkData P samples order \<rparr>)\<rparr>,
                  failures := map_option (\<lambda>m. m(t := None)) (failures s)\<rparr>)"
    with assms show ?thesis by (auto simp: recorded_def split: option.splits)
  qed
qed

lemma probeToken_frame:
  assumes "probeToken P env t s = Inr s'"
  shows "database s' = database s" "errorThreshold s' = errorThreshold s"
    "connectionTime s' = connectionTime s"
  using assms probeToken_branches [of P env t s]
  by (auto simp: failedToken_Inr)

lemma tokenLoop_success:
  assumes "probe env token = Scan samples order"
    and "\<exists>cd \<in> set (retrieveNetworkData P samples order). Workers cd \<noteq> []"
    and "tokenLoop P env ts s = Inr s'"
    and "token \<in> set ts
         \<or> (Networks (networkState s) token
               = Some \<lparr> Clusters = retrieveNetworkData P samples order \<rparr>
             \<and> recorded s token = None)"
  shows "Networks (networkState s') token = Some \<lparr> Clusters = retrieveNetworkData P samples order \<rparr>
         \<and> recorded s' token = None"
  using assms(3,4)
proof (induction ts arbitrary: s)
  case Nil
  then show ?case by simp
next
  case (Cons t ts)
  from Cons.prems(1) obtain s1 where s1: "probeToken P env t s = Inr s1"
    and rest: "tokenLoop P env ts s1 = Inr s'"
    by (auto split: sum.splits)
  have "Networks (networkState s1) token
               = Some \<lparr> Clusters = retrieveNetworkData P samples order \<rparr>
             \<and> recorded s1 token = None" if "t = token"
    using that s1 probeToken_success [OF assms(1,2)] by blast
  moreover have "Networks (networkState s1) token = Networks (networkState s) token
             \<and> recorded s1 token = recorded s token" if "t \<noteq> token"
    using that s1 probeToken_other by blast
  ultimately have "token \<in> set ts
         \<or> (Networks (networkState s1) token
               = Some \<lparr> Clusters = retrieveNetworkData P samples order \<rparr>
             \<and> recorded s1 token = None)"
    using Cons.prems(2) by (cases "t = token") auto
  from Cons.IH [OF rest this] show ?case .
qed

text \<open>C2. When the scan of a token collects at least one ClusterData with a worker, the
  step for the token succeeds, the NetworkState entry of the token is exactly the collected
  sequence (whatever the entry was before), the failure counter of the token is absent
  (count 0) whatever it was before, and the Token Store and the entries of the other tokens
  are untouched; the same holds for the token at the end of any pass that processes it.\<close>

theorem probeToken_replaces_and_clears:
  assumes "probe env token = Scan samples order"
    and "\<exists>cd \<in> set (retrieveNetworkData P samples order). Workers cd \<noteq> []"
  shows "(\<exists>s'. probeToken P env token s = Inr s'
            \<and> Networks (networkState s') token
                = Some \<lparr> Clusters = retrieveNetworkData P samples order \<rparr>
            \<and> recorded s' token = None \<and> failureCount s' token = 0
            \<and> database s' = database s
            \<and> (\<forall>t. t \<noteq> token \<longrightarrow>
                  Networks (networkState s') t = Networks (networkState s) t
                  \<and> recorded s' t = recorded s t))
       \<and> (\<forall>s''. token \<in> set (TokenList (database s)) \<and> runBackground P env s = Inr s'' \<longrightarrow>
              Networks (networkState s'') token
                = Some \<lparr> Clusters = retrieveNetworkData P samples order \<rparr>
              \<and> recorded s'' token = None \<and> failureCount s'' token = 0)"
proof -
  have fc: "failureCount x token = 0" if "recorded x token = None" for x
    using that by (auto simp: failureCount_def recorded_def split: option.splits)
  obtain s' where s': "probeToken P env token s = Inr s'"
    using assms by (simp add: probeToken_Scan)
  have step: "Networks (networkState s') token
                = Some \<lparr> Clusters = retrieveNetworkData P samples order \<rparr>
            \<and> recorded s' token = None \<and> failureCount s' token = 0
            \<and> database s' = database s
            \<and> (\<forall>t. t \<noteq> token \<longrightarrow>
                  Networks (networkState s') t = Networks (networkState s) t
                  \<and> recorded s' t = recorded s t)"
    using probeToken_success [OF assms s'] probeToken_frame(1) [OF s']
          probeToken_other [OF s'] fc [of s']
    by auto
  have pass: "Networks (networkState s'') token
                = Some \<lparr> Clusters = retrieveNetworkData P samples order \<rparr>
              \<and> recorded s'' token = None \<and> failureCount s'' token = 0"
    if "token \<in> set (TokenList (database s))" "runBackground P env s = Inr s''" for s''
  proof -
    from that obtain s1 where loop: "tokenLoop P env (TokenList (database s)) s = Inr s1"
      and sw: "s'' = deleteFailedConnections (sweepOrder env) s1"
      by (auto simp: runBackground_def split: if_splits sum.splits)
    from tokenLoop_success [OF assms loop] that(1)
    have "Networks (networkState s1) token
              = Some \<lparr> Clusters = retrieveNetworkData P samples order \<rparr>"
      "recorded s1 token = None"
      by auto
    then have "Networks (networkState s'') token
                = Some \<lparr> Clusters = retrieveNetworkData P samples order \<rparr>"
      "recorded s'' token = None"
      by (simp_all add: sw sweep_frame recorded_sweep)
    then show ?thesis using fc [of s''] by simp
  qed
  show ?thesis using s' step pass by blast
qed

text \<open>With an allocated failure map, a failed probe (any of the three connection failures,
  or a scan that collects nothing) records one more failure for the token and leaves
  NetworkState and the Token Store alone.\<close>

lemma probeToken_records_failure:
  assumes "probe env token = NewNodeFailed \<or> probe env token = StartFailed
           \<or> probe env token = LedgerFailed
           \<or> (\<exists>samples order. probe env token = Scan samples order
                 \<and> retrieveNetworkData P samples order = [])"
    and "failures s = Some m"
  shows "probeToken P env token s
           = Inr (s\<lparr>failures := Some (m(token \<mapsto> failureCount s token + 1))\<rparr>)"
  using assms
  by (auto simp: probeToken_failed probeToken_Scan failedToken_allocated)

lemma scenario_scan:
  "retrieveNetworkData exampleP2P
      [[(''net1_WORKER_ID'', [Some \<lparr> ID = ''w1'', IsOnline = True \<rparr>])]] [''net1_WORKER_ID'']
   = [\<lparr> Workers = [''w1''], Type = ''worker'', NetworkID = ''net1'' \<rparr>]"
  by (simp add: retrieveNetworkData_def scanSamples_def ledgerStep_def scanKey_def classify_def
        dataStep_def exampleP2P_def)

lemma scenario_step:
  "probeToken exampleP2P scenarioEnv ''net1'' scenarioServer = Inr scenarioResult"
  by (simp add: probeToken_def scenarioEnv_def scenario_scan collect_def scenarioServer_def
        scenarioResult_def)

lemma scenario_pass:
  "runBackground exampleP2P scenarioEnv scenarioServer = Inr scenarioResult"
proof -
  have t: "TokenList (database scenarioServer) = [''net1'']"
    by (simp add: TokenList_def scenarioServer_def)
  have o: "sweepOrder scenarioEnv = []"
    by (simp add: scenarioEnv_def)
  show ?thesis
    by (simp add: runBackground_def t o scenario_step deleteFailedConnections_def)
qed

theorem probeToken_replaces_and_clears_witness:
  "probe scenarioEnv ''net1''
     = Scan [[(''net1_WORKER_ID'', [Some \<lparr> ID = ''w1'', IsOnline = True \<rparr>])]] [''net1_WORKER_ID'']
   \<and> retrieveNetworkData exampleP2P
        [[(''net1_WORKER_ID'', [Some \<lparr> ID = ''w1'', IsOnline = True \<rparr>])]] [''net1_WORKER_ID'']
      = [\<lparr> Workers = [''w1''], Type = ''worker'', NetworkID = ''net1'' \<rparr>]
   \<and> recorded scenarioServer ''net1'' = Some 2
   \<and> ''net1'' \<in> set (TokenList (database scenarioServer))
   \<and> runBackground exampleP2P scenarioEnv scenarioServer = Inr scenarioResult
   \<and> Networks (networkState scenarioResult) ''net1''
       = Some \<lparr> Clusters = [\<lparr> Workers = [''w1''], Type = ''worker'', NetworkID = ''net1'' \<rparr>] \<rparr>
   \<and> recorded scenarioResult ''net1'' = None
   \<and> failureCount scenarioResult ''net1'' = 0"
proof -
  have p: "probe scenarioEnv ''net1''
     = Scan [[(''net1_WORKER_ID'', [Some \<lparr> ID = ''w1'', IsOnline = True \<rparr>])]] [''net1_WORKER_ID'']"
    by (simp add: scenarioEnv_def)
  have w: "\<exists>cd \<in> set (retrieveNetworkData exampleP2P
        [[(''net1_WORKER_ID'', [Some \<lparr> ID = ''w1'', IsOnline = True \<rparr>])]] [''net1_WORKER_ID'']).
      Workers cd \<noteq> []"
    by (simp add: scenario_scan)
  have r: "recorded scenarioServer ''net1'' = Some 2"
    "''net1'' \<in> set (TokenList (database scenarioServer))"
    by (simp_all add: recorded_def scenarioServer_def TokenList_def)
  from probeToken_replaces_and_clears [OF p w, of scenarioServer, THEN conjunct2,
      rule_format, of scenarioResult] r(2) scenario_pass
  have "Networks (networkState scenarioResult) ''net1''
       = Some \<lparr> Clusters = retrieveNetworkData exampleP2P
        [[(''net1_WORKER_ID'', [Some \<lparr> ID = ''w1'', IsOnline = True \<rparr>])]] [''net1_WORKER_ID''] \<rparr>
     \<and> recorded scenarioResult ''net1'' = None
     \<and> failureCount scenarioResult ''net1'' = 0"
    by blast
  then show ?thesis
    using p r scenario_pass by (simp add: scenario_scan)
qed

text \<open>C8. With an empty token list the pass returns the server as it was: NetworkState,
  the failure map and the Token Store are unchanged, so the sweep has not run (on
  \<open>idleServer\<close> the sweep would have removed the count of \<open>net2\<close>).\<close>

theorem runBackground_empty_token_list:
  "TokenList (database s) = [] \<Longrightarrow> runBackground P env s = Inr s"
  by (simp add: runBackground_def)

theorem runBackground_empty_token_list_witness:
  "TokenList (database idleServer) = []
   \<and> runBackground exampleP2P idleEnv idleServer = Inr idleServer
   \<and> evictable idleServer ''net2''
   \<and> recorded (deleteFailedConnections (sweepOrder idleEnv) idleServer) ''net2'' = None
   \<and> recorded idleServer ''net2'' = Some 4"
proof -
  have e: "TokenList (database idleServer) = []"
    by (simp add: TokenList_def idleServer_def)
  have v: "evictable idleServer ''net2''" "recorded idleServer ''net2'' = Some 4"
    by (simp_all add: evictable_def recorded_def idleServer_def)
  have "recorded (deleteFailedConnections (sweepOrder idleEnv) idleServer) ''net2'' = None"
    using v by (simp add: recorded_sweep idleEnv_def)
  then show ?thesis
    using runBackground_empty_token_list [OF e, of exampleP2P idleEnv] e v by simp
qed

section \<open>The invariant of NetworkState and the loop\<close>

lemma emitted_nonempty:
  assumes "cd \<in> set (retrieveNetworkData P samples order)"
  shows "Workers cd \<noteq> []"
proof -
  from retrieveNetworkData_origin [OF assms] obtain d where "scanSamples P samples d = Some cd" ..
  from scanSamples_origin [OF this] obtain vs where "scanKey P d vs = Some cd" by blast
  then show ?thesis using scanKey_Workers by blast
qed

lemma retained_probeToken:
  assumes "retained s" and "probeToken P env token s = Inr s'"
  shows "retained s'"
  using probeToken_branches [of P env token s]
proof
  assume "probeToken P env token s = failedToken token s"
  with assms show ?thesis by (simp add: retained_def failedToken_Inr(1))
next
  assume "\<exists>samples order. probe env token = Scan samples order
        \<and> (\<exists>cd \<in> set (retrieveNetworkData P samples order). Workers cd \<noteq> [])
        \<and> probeToken P env token s =
            Inr (s\<lparr>networkState :=
                    (networkState s)\<lparr>Networks :=
                       (Networks (networkState s))
                         (token \<mapsto> \<lparr> Clusters = retrieveNetworkData P samples order \<rparr>)\<rparr>,
                  failures := map_option (\<lambda>m. m(token := None)) (failures s)\<rparr>)"
  with assms show ?thesis
    by (auto simp: retained_def emitted_nonempty split: if_splits)
qed

lemma retained_tokenLoop:
  "retained s \<Longrightarrow> tokenLoop P env ts s = Inr s' \<Longrightarrow> retained s'"
proof (induction ts arbitrary: s)
  case Nil
  then show ?case by simp
next
  case (Cons t ts)
  from Cons.prems(2) obtain s1 where "probeToken P env t s = Inr s1" "tokenLoop P env ts s1 = Inr s'"
    by (auto split: sum.splits)
  with Cons.IH retained_probeToken [OF Cons.prems(1)] show ?case by blast
qed

lemma retained_runBackground:
  assumes "retained s" and "runBackground P env s = Inr s'"
  shows "retained s'"
proof (cases "length (TokenList (database s)) = 0")
  case True
  with assms show ?thesis by (simp add: runBackground_def)
next
  case False
  with assms(2) obtain s1 where "tokenLoop P env (TokenList (database s)) s = Inr s1"
    and "s' = deleteFailedConnections (sweepOrder env) s1"
    by (auto simp: runBackground_def split: sum.splits)
  with retained_tokenLoop [OF assms(1)] show ?thesis
    by (simp add: retained_def sweep_frame)
qed

lemma retained_runPasses:
  "retained s \<Longrightarrow> runPasses P envs i k s = Inr s' \<Longrightarrow> retained s'"
proof (induction k arbitrary: i s)
  case 0
  then show ?case by simp
next
  case (Suc k)
  from Suc.prems(2) obtain s1 where "runBackground P (envs i) s = Inr s1"
    "runPasses P envs (Suc i) k s1 = Inr s'"
    by (auto split: sum.splits)
  with Suc.IH retained_runBackground [OF Suc.prems(1)] show ?case by blast
qed

lemma Start_first_cancel:
  "cancelled (i + k) \<Longrightarrow> (\<forall>j<k. \<not> cancelled (i + j)) \<Longrightarrow>
   Start P cancelled envs i s =
     Some (case runPasses P envs i k s of
             Inl p \<Rightarrow> Inl p
           | Inr s' \<Rightarrow> Inr (''context cancelled'', s'))"
proof (induction k arbitrary: i s)
  case 0
  then show ?case by (simp add: Start.simps)
next
  case (Suc k)
  from Suc.prems(2) have nc: "\<not> cancelled i" by force
  have c: "cancelled (Suc i + k)" using Suc.prems(1) by simp
  have n: "\<forall>j<k. \<not> cancelled (Suc i + j)"
  proof (intro allI impI)
    fix j assume "j < k"
    then have "Suc j < Suc k" by simp
    with Suc.prems(2) have "\<not> cancelled (i + Suc j)" by blast
    then show "\<not> cancelled (Suc i + j)" by simp
  qed
  show ?case
  proof (cases "runBackground P (envs i) s")
    case (Inl p)
    with nc show ?thesis by (simp add: Start.simps)
  next
    case (Inr s1)
    with nc have "Start P cancelled envs i s = Start P cancelled envs (Suc i) s1"
      by (subst Start.simps) simp
    with Suc.IH [OF c n, of s1] Inr show ?thesis by simp
  qed
qed

lemma first_cancel_shift:
  assumes "\<not> cancelled i" and "cancelled (Suc i + k)" and "\<forall>j<k. \<not> cancelled (Suc i + j)"
  shows "cancelled (i + Suc k) \<and> (\<forall>j<Suc k. \<not> cancelled (i + j))"
proof (intro conjI allI impI)
  show "cancelled (i + Suc k)" using assms(2) by simp
next
  fix j assume j: "j < Suc k"
  show "\<not> cancelled (i + j)"
  proof (cases j)
    case 0
    with assms(1) show ?thesis by simp
  next
    case (Suc j')
    with j have "j' < k" by simp
    with assms(3) have "\<not> cancelled (Suc i + j')" by blast
    with Suc show ?thesis by simp
  qed
qed

lemma Start_returned:
  fixes P :: "'v p2p"
  assumes "Start P cancelled envs i s = Some y"
  shows "(\<exists>p. y = Inl p) \<or> (\<exists>k. cancelled (i + k) \<and> (\<forall>j<k. \<not> cancelled (i + j)))"
proof -
  let ?Q = "\<lambda>x y. case x of ((((P, cancelled), envs), i), s) \<Rightarrow>
              (\<exists>p. y = Inl p) \<or> (\<exists>k. cancelled (i + k) \<and> (\<forall>j<k. \<not> cancelled (i + j)))"
  have "?Q ((((P, cancelled), envs), i), s) y"
  proof (rule Start.raw_induct [where Pa = ?Q, OF _ assms])
    fix Start' :: "'v p2p \<Rightarrow> (nat \<Rightarrow> bool) \<Rightarrow> (nat \<Rightarrow> 'v Env) \<Rightarrow> nat \<Rightarrow> DiscoveryServer
                       \<Rightarrow> (panic + string \<times> DiscoveryServer) option"
      and P :: "'v p2p" and cancelled :: "nat \<Rightarrow> bool" and envs :: "nat \<Rightarrow> 'v Env"
      and i :: nat and s :: DiscoveryServer and y :: "panic + string \<times> DiscoveryServer"
    assume IH: "\<And>P cancelled envs i s y.
        Start' P cancelled envs i s = Some y \<Longrightarrow> ?Q ((((P, cancelled), envs), i), s) y"
    assume body: "(if cancelled i then Some (Inr (''context cancelled'', s))
       else case runBackground P (envs i) s of
              Inl p \<Rightarrow> Some (Inl p)
            | Inr s' \<Rightarrow> Start' P cancelled envs (Suc i) s') = Some y"
    show "?Q ((((P, cancelled), envs), i), s) y"
    proof (cases "cancelled i")
      case True
      then have "\<exists>k. cancelled (i + k) \<and> (\<forall>j<k. \<not> cancelled (i + j))"
        by (intro exI [of _ 0]) simp
      then show ?thesis by simp
    next
      case nc: False
      show ?thesis
      proof (cases "runBackground P (envs i) s")
        case (Inl p)
        with nc body show ?thesis by auto
      next
        case (Inr s1)
        with nc body have "Start' P cancelled envs (Suc i) s1 = Some y" by simp
        from IH [OF this]
        have "(\<exists>p. y = Inl p)
            \<or> (\<exists>k. cancelled (Suc i + k) \<and> (\<forall>j<k. \<not> cancelled (Suc i + j)))"
          by simp
        then show ?thesis
        proof
          assume "\<exists>p. y = Inl p"
          then show ?thesis by simp
        next
          assume "\<exists>k. cancelled (Suc i + k) \<and> (\<forall>j<k. \<not> cancelled (Suc i + j))"
          then obtain k where "cancelled (Suc i + k)" "\<forall>j<k. \<not> cancelled (Suc i + j)" by blast
          from first_cancel_shift [OF nc this]
          have "\<exists>k. cancelled (i + k) \<and> (\<forall>j<k. \<not> cancelled (i + j))" by blast
          then show ?thesis by simp
        qed
      qed
    qed
  qed
  then show ?thesis by simp
qed

lemma allocated_probeToken:
  assumes "failures s \<noteq> None"
  shows "\<exists>s'. probeToken P env token s = Inr s' \<and> failures s' \<noteq> None"
  using assms probeToken_branches [of P env token s]
  by (auto simp: failedToken_def)

lemma allocated_tokenLoop:
  "failures s \<noteq> None \<Longrightarrow> \<exists>s'. tokenLoop P env ts s = Inr s' \<and> failures s' \<noteq> None"
proof (induction ts arbitrary: s)
  case Nil
  then show ?case by simp
next
  case (Cons t ts)
  from allocated_probeToken [OF Cons.prems, of P env t]
  obtain s1 where "probeToken P env t s = Inr s1" "failures s1 \<noteq> None" by blast
  with Cons.IH [of s1] show ?case by simp
qed

lemma allocated_sweep:
  "failures s \<noteq> None \<Longrightarrow> failures (deleteFailedConnections ks s) \<noteq> None"
  unfolding deleteFailedConnections_def
  by (induction ks arbitrary: s) (auto simp: sweepEntry_def split: option.splits)

lemma allocated_runBackground:
  assumes "failures s \<noteq> None"
  shows "\<exists>s'. runBackground P env s = Inr s' \<and> failures s' \<noteq> None"
proof -
  from allocated_tokenLoop [OF assms, of P env "TokenList (database s)"]
  obtain s1 where s1: "tokenLoop P env (TokenList (database s)) s = Inr s1" "failures s1 \<noteq> None"
    by blast
  show ?thesis
  proof (cases "length (TokenList (database s)) = 0")
    case True
    with assms show ?thesis by (simp add: runBackground_def)
  next
    case False
    with s1 allocated_sweep [OF s1(2), of "sweepOrder env"] show ?thesis
      by (simp add: runBackground_def)
  qed
qed

lemma allocated_runPasses:
  "failures s \<noteq> None \<Longrightarrow> \<exists>s'. runPasses P envs i k s = Inr s' \<and> failures s' \<noteq> None"
proof (induction k arbitrary: i s)
  case 0
  then show ?case by simp
next
  case (Suc k)
  from allocated_runBackground [OF Suc.prems, of P "envs i"]
  obtain s1 where "runBackground P (envs i) s = Inr s1" "failures s1 \<noteq> None" by blast
  with Suc.IH [of s1 "Suc i"] show ?case by simp
qed

lemma Start_allocated_no_panic:
  fixes P :: "'v p2p"
  assumes "Start P cancelled envs i s = Some y"
  shows "failures s \<noteq> None \<longrightarrow> (\<forall>p. y \<noteq> Inl p)"
proof -
  let ?Q = "\<lambda>x y. case x of ((((P, cancelled), envs), i), s) \<Rightarrow>
              failures s \<noteq> None \<longrightarrow> (\<forall>p. y \<noteq> Inl p)"
  have "?Q ((((P, cancelled), envs), i), s) y"
  proof (rule Start.raw_induct [where Pa = ?Q, OF _ assms])
    fix Start' :: "'v p2p \<Rightarrow> (nat \<Rightarrow> bool) \<Rightarrow> (nat \<Rightarrow> 'v Env) \<Rightarrow> nat \<Rightarrow> DiscoveryServer
                       \<Rightarrow> (panic + string \<times> DiscoveryServer) option"
      and P :: "'v p2p" and cancelled :: "nat \<Rightarrow> bool" and envs :: "nat \<Rightarrow> 'v Env"
      and i :: nat and s :: DiscoveryServer and y :: "panic + string \<times> DiscoveryServer"
    assume IH: "\<And>P cancelled envs i s y.
        Start' P cancelled envs i s = Some y \<Longrightarrow> ?Q ((((P, cancelled), envs), i), s) y"
    assume body: "(if cancelled i then Some (Inr (''context cancelled'', s))
       else case runBackground P (envs i) s of
              Inl p \<Rightarrow> Some (Inl p)
            | Inr s' \<Rightarrow> Start' P cancelled envs (Suc i) s') = Some y"
    have "\<forall>p. y \<noteq> Inl p" if a: "failures s \<noteq> None"
    proof -
      from allocated_runBackground [OF a, of P "envs i"]
      obtain s1 where s1: "runBackground P (envs i) s = Inr s1" "failures s1 \<noteq> None" by blast
      show ?thesis
      proof (cases "cancelled i")
        case True
        with body show ?thesis by auto
      next
        case False
        with body s1 have "Start' P cancelled envs (Suc i) s1 = Some y" by simp
        from IH [OF this] s1(2) show ?thesis by simp
      qed
    qed
    then show "?Q ((((P, cancelled), envs), i), s) y" by simp
  qed
  then show ?thesis by simp
qed

lemma retained_new: "retained (NewDiscoveryServer db dur failureThreshold)"
  by (simp add: retained_def NewDiscoveryServer_def Let_def)

lemma Start_Inr_runPasses:
  fixes P :: "'v p2p"
  assumes "Start P cancelled envs i s = Some (Inr (e, s'))"
  shows "e = ''context cancelled''
       \<and> (\<exists>k. cancelled (i + k) \<and> (\<forall>j<k. \<not> cancelled (i + j)) \<and> runPasses P envs i k s = Inr s')"
proof -
  from Start_returned [OF assms]
  obtain k where k: "cancelled (i + k)" "\<forall>j<k. \<not> cancelled (i + j)" by auto
  from Start_first_cancel [OF k, of P envs s] assms
  have "e = ''context cancelled'' \<and> runPasses P envs i k s = Inr s'"
    by (cases "runPasses P envs i k s") auto
  with k show ?thesis by blast
qed

text \<open>C7. Every ClusterData that the scanner sends has a non-empty Workers list; the
  constructor's NetworkState satisfies the invariant \<open>retained\<close>, and a pass, and so the
  loop of \<open>Start\<close>, preserves it: no ClusterData without workers reaches NetworkState.\<close>

theorem retained_clusters_have_workers:
  fixes P :: "'v p2p"
  shows "(\<forall>cd \<in> set (retrieveNetworkData P samples order). Workers cd \<noteq> [])
   \<and> retained (NewDiscoveryServer db dur failureThreshold)
   \<and> (retained s \<and> runBackground P env s = Inr s' \<longrightarrow> retained s')
   \<and> (retained s \<and> Start P cancelled envs i s = Some (Inr (e, s'')) \<longrightarrow> retained s'')"
proof -
  have "retained s''" if "retained s" "Start P cancelled envs i s = Some (Inr (e, s''))"
  proof -
    from Start_Inr_runPasses [OF that(2)] obtain k where "runPasses P envs i k s = Inr s''"
      by blast
    from retained_runPasses [OF that(1) this] show ?thesis .
  qed
  then show ?thesis
    using emitted_nonempty [of _ P samples order] retained_new [of db dur failureThreshold]
      retained_runBackground [of s P env s']
    by blast
qed

theorem retained_clusters_have_workers_witness:
  "retrieveNetworkData exampleP2P
      [[(''net1_WORKER_ID'', [Some \<lparr> ID = ''w1'', IsOnline = True \<rparr>]),
        (''net1_FEDERATED_ID'', [Some \<lparr> ID = ''f1'', IsOnline = False \<rparr>])]]
      [''net1_WORKER_ID'']
     = [\<lparr> Workers = [''w1''], Type = ''worker'', NetworkID = ''net1'' \<rparr>]
   \<and> Workers \<lparr> Workers = [''w1''], Type = ''worker'', NetworkID = ''net1'' \<rparr> \<noteq> []
   \<and> retained scenarioServer
   \<and> runBackground exampleP2P scenarioEnv scenarioServer = Inr scenarioResult
   \<and> retained scenarioResult"
proof -
  have r: "retained scenarioServer"
    by (simp add: retained_def scenarioServer_def)
  have e: "retrieveNetworkData exampleP2P
      [[(''net1_WORKER_ID'', [Some \<lparr> ID = ''w1'', IsOnline = True \<rparr>]),
        (''net1_FEDERATED_ID'', [Some \<lparr> ID = ''f1'', IsOnline = False \<rparr>])]]
      [''net1_WORKER_ID'']
     = [\<lparr> Workers = [''w1''], Type = ''worker'', NetworkID = ''net1'' \<rparr>]"
    by (simp add: retrieveNetworkData_def scanSamples_def ledgerStep_def scanKey_def classify_def
          dataStep_def exampleP2P_def)
  from retained_clusters_have_workers [of exampleP2P _ _ _ _ _ scenarioServer scenarioEnv
      scenarioResult, THEN conjunct2, THEN conjunct2, THEN conjunct1] r scenario_pass
  have "retained scenarioResult" by blast
  with r e scenario_pass show ?thesis by simp
qed

text \<open>What holds of the loop for every server: \<open>Start\<close> returns only with the error
  \<open>context cancelled\<close>, and only when the cancellation has been observed, after the passes
  of all the turns before; when the cancellation is first observed at turn \<open>i + k\<close> the
  outcome is that of the \<open>k\<close> passes run until then. For a server with an allocated
  failure map every pass completes, whatever the network answers, and without a cancellation
  \<open>Start\<close> never returns.\<close>

theorem Start_returns_only_on_cancellation:
  fixes P :: "'v p2p"
  shows "(Start P cancelled envs i s = Some (Inr (e, s')) \<longrightarrow>
            e = ''context cancelled''
            \<and> (\<exists>n. cancelled (i + n) \<and> (\<forall>j<n. \<not> cancelled (i + j))
                   \<and> runPasses P envs i n s = Inr s'))
   \<and> (cancelled (i + k) \<and> (\<forall>j<k. \<not> cancelled (i + j)) \<longrightarrow>
        Start P cancelled envs i s =
          Some (case runPasses P envs i k s of
                  Inl p \<Rightarrow> Inl p
                | Inr s1 \<Rightarrow> Inr (''context cancelled'', s1)))
   \<and> (failures s \<noteq> None \<longrightarrow> (\<exists>s1. runPasses P envs i k s = Inr s1))
   \<and> (failures s \<noteq> None \<and> (\<forall>n. \<not> cancelled (i + n)) \<longrightarrow> Start P cancelled envs i s = None)"
proof -
  have a: "e = ''context cancelled''
            \<and> (\<exists>n. cancelled (i + n) \<and> (\<forall>j<n. \<not> cancelled (i + j))
                   \<and> runPasses P envs i n s = Inr s')"
    if "Start P cancelled envs i s = Some (Inr (e, s'))"
    using Start_Inr_runPasses [OF that] .
  have b: "Start P cancelled envs i s =
          Some (case runPasses P envs i k s of
                  Inl p \<Rightarrow> Inl p
                | Inr s1 \<Rightarrow> Inr (''context cancelled'', s1))"
    if "cancelled (i + k) \<and> (\<forall>j<k. \<not> cancelled (i + j))"
    using that Start_first_cancel [of cancelled i k P envs s] by blast
  have c: "\<exists>s1. runPasses P envs i k s = Inr s1" if "failures s \<noteq> None"
    using allocated_runPasses [OF that, of P envs i k] by blast
  have d: "Start P cancelled envs i s = None"
    if "failures s \<noteq> None" "\<forall>n. \<not> cancelled (i + n)"
  proof (cases "Start P cancelled envs i s")
    case None
    then show ?thesis .
  next
    case (Some y)
    from Start_returned [OF Some] that(2) obtain p where "y = Inl p" by blast
    with Start_allocated_no_panic [OF Some] that(1) show ?thesis by blast
  qed
  show ?thesis using a b c d by blast
qed

theorem Start_returns_only_on_cancellation_witness:
  "(1::nat) \<le> 0 + Suc 0 \<and> \<not> (1::nat) \<le> 0 + 0
   \<and> runPasses exampleP2P (\<lambda>i. scenarioEnv) 0 (Suc 0) scenarioServer = Inr scenarioResult
   \<and> Start exampleP2P (\<lambda>i. 1 \<le> i) (\<lambda>i. scenarioEnv) 0 scenarioServer
       = Some (Inr (''context cancelled'', scenarioResult))
   \<and> failures scenarioServer \<noteq> None"
proof -
  have c: "(\<lambda>i::nat. 1 \<le> i) (0 + Suc 0) \<and> (\<forall>j<Suc 0. \<not> (\<lambda>i::nat. 1 \<le> i) (0 + j))"
    by simp
  have r: "runPasses exampleP2P (\<lambda>i. scenarioEnv) 0 (Suc 0) scenarioServer = Inr scenarioResult"
    by (simp add: scenario_pass)
  have f: "failures scenarioServer \<noteq> None"
    by (simp add: scenarioServer_def)
  from Start_returns_only_on_cancellation [of exampleP2P "\<lambda>i. 1 \<le> i" "\<lambda>i. scenarioEnv" 0
      scenarioServer _ _ "Suc 0", THEN conjunct2, THEN conjunct1, THEN mp, OF c]
  have "Start exampleP2P (\<lambda>i. 1 \<le> i) (\<lambda>i. scenarioEnv) 0 scenarioServer
       = Some (Inr (''context cancelled'', scenarioResult))"
    by (simp add: scenario_pass)
  with r f show ?thesis by simp
qed

section \<open>Properties of the constructor\<close>

text \<open>C10. The server returned by \<open>NewDiscoveryServer\<close> carries a \<open>nil\<close> failure map
  (the composite literal has no \<open>failures\<close> field), and the first \<open>failedToken\<close> on it,
  for any token, panics instead of recording a count of 1.\<close>

theorem NewDiscoveryServer_failures_nil:
  "failures (NewDiscoveryServer db dur failureThreshold) = None
   \<and> failedToken token (NewDiscoveryServer db dur failureThreshold) = Inl AssignmentToEntryInNilMap"
  by (simp add: NewDiscoveryServer_def failedToken_def Let_def)

text \<open>C3. On the server that \<open>NewDiscoveryServer\<close> returns, each of the three connection
  failures and a scan without workers ends the pass with the panic of \<open>failedToken\<close> on
  the \<open>nil\<close> failure map: no count is recorded, and the panic ends the loop of \<open>Start\<close>
  as well.\<close>

theorem failedToken_aborts_pass_on_new_server:
  "runBackground P \<lparr> probe = (\<lambda>token. NewNodeFailed), sweepOrder = ks \<rparr>
      (NewDiscoveryServer \<lparr> tokens = [''net2''] \<rparr> dur failureThreshold)
     = Inl AssignmentToEntryInNilMap
   \<and> runBackground P \<lparr> probe = (\<lambda>token. StartFailed), sweepOrder = ks \<rparr>
      (NewDiscoveryServer \<lparr> tokens = [''net2''] \<rparr> dur failureThreshold)
     = Inl AssignmentToEntryInNilMap
   \<and> runBackground P \<lparr> probe = (\<lambda>token. LedgerFailed), sweepOrder = ks \<rparr>
      (NewDiscoveryServer \<lparr> tokens = [''net2''] \<rparr> dur failureThreshold)
     = Inl AssignmentToEntryInNilMap
   \<and> runBackground P \<lparr> probe = (\<lambda>token. Scan [] []), sweepOrder = ks \<rparr>
      (NewDiscoveryServer \<lparr> tokens = [''net2''] \<rparr> dur failureThreshold)
     = Inl AssignmentToEntryInNilMap
   \<and> Start P (\<lambda>i. False) (\<lambda>i. \<lparr> probe = (\<lambda>token. NewNodeFailed), sweepOrder = ks \<rparr>) 0
      (NewDiscoveryServer \<lparr> tokens = [''net2''] \<rparr> dur failureThreshold)
     = Some (Inl AssignmentToEntryInNilMap)"
  by (simp add: Start.simps runBackground_def TokenList_def probeToken_def failedToken_def
        NewDiscoveryServer_def Let_def retrieveNetworkData_def collect_def)

text \<open>C9. On the server that \<open>NewDiscoveryServer\<close> returns, with a context that is never
  cancelled, \<open>Start\<close> ends in its first pass as soon as the first token fails to connect
  or its scan collects nothing: the panic of \<open>failedToken\<close> on the \<open>nil\<close> failure map
  ends the loop, with no cancellation.\<close>

theorem Start_ends_without_cancellation_on_new_server:
  "Start P (\<lambda>i. False) (\<lambda>i. \<lparr> probe = (\<lambda>t. NewNodeFailed), sweepOrder = ks \<rparr>) 0
      (NewDiscoveryServer \<lparr> tokens = token # rest \<rparr> dur failureThreshold)
     = Some (Inl AssignmentToEntryInNilMap)
   \<and> Start P (\<lambda>i. False) (\<lambda>i. \<lparr> probe = (\<lambda>t. StartFailed), sweepOrder = ks \<rparr>) 0
      (NewDiscoveryServer \<lparr> tokens = token # rest \<rparr> dur failureThreshold)
     = Some (Inl AssignmentToEntryInNilMap)
   \<and> Start P (\<lambda>i. False) (\<lambda>i. \<lparr> probe = (\<lambda>t. LedgerFailed), sweepOrder = ks \<rparr>) 0
      (NewDiscoveryServer \<lparr> tokens = token # rest \<rparr> dur failureThreshold)
     = Some (Inl AssignmentToEntryInNilMap)
   \<and> Start P (\<lambda>i. False) (\<lambda>i. \<lparr> probe = (\<lambda>t. Scan [] []), sweepOrder = ks \<rparr>) 0
      (NewDiscoveryServer \<lparr> tokens = token # rest \<rparr> dur failureThreshold)
     = Some (Inl AssignmentToEntryInNilMap)"
  by (simp add: Start.simps runBackground_def TokenList_def probeToken_def failedToken_def
        NewDiscoveryServer_def Let_def retrieveNetworkData_def collect_def)

end
